theory Spec2Isabelle
  imports Complex_Main "HOL-Library.Word" "HOL-Library.Multiset" "HOL-Library.Log_Nat"
begin

section \<open>The BBTXT data layer (bbtxt_data_layer.cpp)\<close>

text \<open>
  The layer reads an annotation file (one bounding box per line), keeps one entry per image
  (file name and a label blob of \<open>MAX_NUM_BBS_PER_IMAGE\<close> rows of 5 numbers), and produces
  batches of cropped, resized and normalised images with their remapped boxes.

  Conventions of the embedding:
  \<^item> a floating-point number is the \<open>real\<close> it denotes; every floating-point operation of
    the crop and of the remapping is the exact operation followed by \<open>fl\<close>, the rounding to
    the nearest number of its type (\<open>Float\<close> or \<open>Double\<close>, ties to even, subnormal numbers
    included); \<open>Dtype\<close>, the template parameter of the layer, is the parameter \<open>dt\<close>;
  \<^item> floating-point expressions are evaluated in the precision of their type (no excess
    precision, no fused multiply-add), as on x86-64;
  \<^item> infinities and NaN are no values of the model: a rounded result beyond the largest
    finite number stands for an infinity; in the crop every infinity reaches a conversion
    to \<open>int\<close>, which is undefined; a scaling or a box coordinate that is not finite in the
    remapping ends the model with \<open>FloatOverflow\<close> (the program stores the infinity or the
    NaN and goes on); the numbers of a label blob are finite numbers of \<open>Dtype\<close>;
  \<^item> a blob is the flat list of its numbers, \<open>offset\<close> giving the start of a row;
  \<^item> \<open>int\<close> is the mathematical integers; a conversion to \<open>int\<close> of a number outside the
    32-bit range, and a sum leaving that range, is reported as \<open>UndefinedBehaviour\<close>;
  \<^item> every \<open>CHECK\<close>, every assertion of OpenCV and boost, and every exception is a value
    \<open>Inl e\<close> of the result; so is a read or write of a vector beyond its end
    (\<open>IndexOutOfRange\<close>);
  \<^item> the random generator, the image decoder, the pixel interpolation of \<open>cv::resize\<close>,
    \<open>std::stof\<close> and the file system are parameters;
  \<^item> console and log output is not modelled, except the count of logged warnings of the
    annotation reader.
\<close>

subsection \<open>Errors\<close>

datatype error =
    CheckFailed string
  | CvError
  | BoostRangeError
  | StofError
  | UndefinedBehaviour
  | IndexOutOfRange
  | FloatOverflow

definition bind :: "error + 'a \<Rightarrow> ('a \<Rightarrow> error + 'b) \<Rightarrow> error + 'b" where
  "bind m f = (case m of Inl e \<Rightarrow> Inl e | Inr v \<Rightarrow> f v)"

subsection \<open>Parameters and blobs\<close>

definition MAX_NUM_BBS_PER_IMAGE :: nat where
  "MAX_NUM_BBS_PER_IMAGE = 20"

record bbtxt_param =
  height :: int
  width :: int
  reference_size :: int

text \<open>A label blob: rows \<open>[label, xmin, ymin, xmax, ymax]\<close>, row \<open>i\<close> starting at \<open>offset i\<close>.\<close>

type_synonym blob = "real list"

definition offset :: "nat \<Rightarrow> nat" where
  "offset i = i * 5"

definition blob_count :: nat where
  "blob_count = MAX_NUM_BBS_PER_IMAGE * 5"

text \<open>The random generator: \<open>gen g (lo, hi)\<close> is the draw \<open>dist(*rng)\<close> of a
  \<open>uniform_int_distribution\<close> \<open>dist(lo, hi)\<close> from the generator in state \<open>g\<close>, with the
  next state of the generator.\<close>

type_synonym 'g generator = "'g \<Rightarrow> int \<times> int \<Rightarrow> int \<times> 'g"

definition draws_in_range :: "'g generator \<Rightarrow> bool" where
  "draws_in_range gen =
     (\<forall>g lo hi. lo \<le> hi \<longrightarrow> lo \<le> fst (gen g (lo, hi)) \<and> fst (gen g (lo, hi)) \<le> hi)"

text \<open>boost asserts \<open>min \<le> max\<close> when a distribution is constructed.\<close>

definition uniform_int_distribution :: "int \<Rightarrow> int \<Rightarrow> error + int \<times> int" where
  "uniform_int_distribution lo hi = (if lo \<le> hi then Inr (lo, hi) else Inl BoostRangeError)"

subsection \<open>Conversions to int\<close>

text \<open>A floating-point number converted to \<open>int\<close> is truncated towards zero; the conversion
  is undefined when the truncated value is not a 32-bit integer.\<close>

definition trunc_int :: "real \<Rightarrow> int" where
  "trunc_int r = (if 0 \<le> r then \<lfloor>r\<rfloor> else \<lceil>r\<rceil>)"

definition int_ok :: "int \<Rightarrow> bool" where
  "int_ok v = (- 2147483648 \<le> v \<and> v \<le> 2147483647)"

definition to_int :: "real \<Rightarrow> error + int" where
  "to_int r = (if int_ok (trunc_int r) then Inr (trunc_int r) else Inl UndefinedBehaviour)"

definition checked :: "int \<Rightarrow> error + int" where
  "checked v = (if int_ok v then Inr v else Inl UndefinedBehaviour)"

subsection \<open>Floating-point numbers\<close>

text \<open>The two types of the program: \<open>float\<close> (IEEE binary32) and \<open>double\<close> (binary64), with
  the number of bits of the significand and the range of the exponent.\<close>

datatype dtype = Float | Double

definition precision :: "dtype \<Rightarrow> nat" where
  "precision dt = (case dt of Float \<Rightarrow> 24 | Double \<Rightarrow> 53)"

definition emin :: "dtype \<Rightarrow> int" where
  "emin dt = (case dt of Float \<Rightarrow> - 126 | Double \<Rightarrow> - 1022)"

definition emax :: "dtype \<Rightarrow> int" where
  "emax dt = (case dt of Float \<Rightarrow> 127 | Double \<Rightarrow> 1023)"

definition pow2 :: "int \<Rightarrow> real" where
  "pow2 e = (if 0 \<le> e then real_of_int (2 ^ nat e) else 1 / real_of_int (2 ^ nat (- e)))"

text \<open>The exponent \<open>e\<close> of \<open>x \<noteq> 0\<close>: \<open>2 ^ e \<le> \<bar>x\<bar> < 2 ^ (e + 1)\<close>.\<close>

definition ilog2 :: "real \<Rightarrow> int" where
  "ilog2 x = (if 1 \<le> \<bar>x\<bar> then bitlen \<lfloor>\<bar>x\<bar>\<rfloor> - 1 else - bitlen (\<lceil>1 / \<bar>x\<bar>\<rceil> - 1))"

text \<open>Rounding to the nearest integer, ties to the even one.\<close>

definition round_even :: "real \<Rightarrow> int" where
  "round_even x =
     (let f = \<lfloor>x\<rfloor>; d = x - real_of_int f
      in if d < 1 / 2 then f else if 1 / 2 < d then f + 1 else if even f then f else f + 1)"

text \<open>Rounding to the nearest number of the type: a multiple of the unit in the last place
  of the binade of \<open>x\<close> (of the smallest binade for a subnormal \<open>x\<close>).\<close>

definition fl :: "dtype \<Rightarrow> real \<Rightarrow> real" where
  "fl dt x =
     (if x = 0 then 0
      else let e = max (ilog2 x) (emin dt);
               q = pow2 (e - int (precision dt) + 1)
           in real_of_int (round_even (x / q)) * q)"

text \<open>The largest finite number of the type (\<open>FLT_MAX\<close>, \<open>DBL_MAX\<close>). A rounded result
  beyond it is an overflow: the program has an infinity there.\<close>

definition max_finite :: "dtype \<Rightarrow> real" where
  "max_finite dt =
     real_of_int ((2 ^ precision dt - 1) * 2 ^ nat (emax dt - int (precision dt) + 1))"

definition finite_fl :: "dtype \<Rightarrow> real \<Rightarrow> bool" where
  "finite_fl dt x = (\<bar>x\<bar> \<le> max_finite dt)"

subsection \<open>numBBs\<close>

function numBBs_loop :: "blob \<Rightarrow> nat \<Rightarrow> nat" where
  "numBBs_loop labels i =
     (if i < MAX_NUM_BBS_PER_IMAGE
      then (if labels ! offset i = - 1 then i else numBBs_loop labels (Suc i))
      else MAX_NUM_BBS_PER_IMAGE)"
  by pat_completeness auto
termination
  by (relation "measure (\<lambda>(labels, i). MAX_NUM_BBS_PER_IMAGE - i)") auto

declare numBBs_loop.simps [simp del]

definition numBBs :: "blob \<Rightarrow> nat" where
  "numBBs labels = numBBs_loop labels 0"

subsection \<open>The crop of the box branch of \_transformImage\<close>

record crop =
  crop_x :: int
  crop_y :: int
  crop_width :: int
  crop_height :: int

text \<open>Lines 279 to 281: the size of the crop, from the larger side of the selected box. The
  quotient \<open>double(width) / reference_size\<close> and its product with \<open>size\<close> are operations
  of \<open>double\<close>, whatever \<open>Dtype\<close> is; the conversions of the two integers and of \<open>size\<close> to
  \<open>double\<close> are exact.\<close>

definition crop_size :: "bbtxt_param \<Rightarrow> real \<Rightarrow> real \<Rightarrow> error + int \<times> int" where
  "crop_size p w h =
     (let size = max w h in
      if reference_size p = 0 then Inl UndefinedBehaviour
      else bind (to_int (fl Double
                  (fl Double (real_of_int (width p) / real_of_int (reference_size p)) * size)))
             (\<lambda>cw.
           bind (to_int (fl Double
                  (fl Double (real_of_int (height p) / real_of_int (reference_size p)) * size)))
             (\<lambda>ch.
           Inr (cw, ch))))"

text \<open>Lines 268 to 270: select a box.\<close>

definition select_bb :: "'g generator \<Rightarrow> blob \<Rightarrow> 'g \<Rightarrow> error + int \<times> 'g" where
  "select_bb gen label g =
     (let num_bbs = numBBs label in
      bind (uniform_int_distribution 0 (int num_bbs - 1)) (\<lambda>dist. Inr (gen g dist)))"

text \<open>Lines 284 to 287: draw the position of the crop. The bounds \<open>x + w - crop_width\<close> and
  \<open>y + h - crop_height\<close> are computed in \<open>Dtype\<close> (the sum, the conversion of the integer and
  the difference are rounded), then the bounds of the two distributions are converted to
  \<open>int\<close>.\<close>

definition crop_position ::
  "dtype \<Rightarrow> 'g generator \<Rightarrow> real \<Rightarrow> real \<Rightarrow> real \<Rightarrow> real \<Rightarrow> int \<Rightarrow> int \<Rightarrow> 'g
     \<Rightarrow> error + int \<times> int \<times> 'g" where
  "crop_position dt gen x y w h cw ch g =
     bind (to_int (fl dt (fl dt (x + w) - fl dt (real_of_int cw)))) (\<lambda>xlo.
     bind (to_int x) (\<lambda>xhi.
     bind (uniform_int_distribution xlo xhi) (\<lambda>distx.
     bind (to_int (fl dt (fl dt (y + h) - fl dt (real_of_int ch)))) (\<lambda>ylo.
     bind (to_int y) (\<lambda>yhi.
     bind (uniform_int_distribution ylo yhi) (\<lambda>disty.
     case gen g distx of (cx, g1) \<Rightarrow>
     case gen g1 disty of (cy, g2) \<Rightarrow> Inr (cx, cy, g2)))))))"

text \<open>Lines 268 to 287: the selected box and the crop. The width and the height of the box
  are differences in \<open>Dtype\<close>. When one of them overflows, \<open>size\<close> is an infinity, the
  product at line 279 an infinity or NaN, and its conversion to \<open>int\<close> undefined.\<close>

definition select_crop ::
  "dtype \<Rightarrow> bbtxt_param \<Rightarrow> 'g generator \<Rightarrow> blob \<Rightarrow> 'g \<Rightarrow> error + nat \<times> crop \<times> 'g" where
  "select_crop dt p gen label g =
     bind (select_bb gen label g) (\<lambda>(bb_id, g1).
     let bb = offset (nat bb_id);
         x = label ! (bb + 1);
         y = label ! (bb + 2);
         w = fl dt (label ! (bb + 3) - label ! (bb + 1));
         h = fl dt (label ! (bb + 4) - label ! (bb + 2))
     in
     if finite_fl dt w \<and> finite_fl dt h
     then
       bind (crop_size p w h) (\<lambda>(cw, ch).
       bind (crop_position dt gen x y w h cw ch g1) (\<lambda>(cx, cy, g2).
       Inr (nat bb_id,
            \<lparr>crop_x = cx, crop_y = cy, crop_width = cw, crop_height = ch\<rparr>, g2)))
     else Inl UndefinedBehaviour)"

text \<open>Lines 308 and 309: the scaling of the resize, a quotient of \<open>float\<close> whatever \<open>Dtype\<close>
  is: \<open>float(width)\<close> and the divisor are conversions of integers to \<open>float\<close>; the
  conversion of the quotient to \<open>Dtype\<close> is exact.\<close>

definition x_scaling :: "bbtxt_param \<Rightarrow> crop \<Rightarrow> real" where
  "x_scaling p c =
     fl Float (fl Float (real_of_int (width p)) / fl Float (real_of_int (crop_width c)))"

definition y_scaling :: "bbtxt_param \<Rightarrow> crop \<Rightarrow> real" where
  "y_scaling p c =
     fl Float (fl Float (real_of_int (height p)) / fl Float (real_of_int (crop_height c)))"

subsection \<open>Images\<close>

text \<open>A \<open>cv::Mat\<close> of bytes: \<open>ptr m ! i\<close> is row \<open>i\<close>, the bytes of its pixels interleaved
  (\<open>channels m\<close> bytes for each pixel).\<close>

type_synonym uchar = "8 word"

record mat =
  rows :: nat
  cols :: nat
  channels :: nat
  ptr :: "uchar list list"

definition empty_mat :: "mat \<Rightarrow> bool" where
  "empty_mat m = (rows m = 0 \<or> cols m = 0)"

definition pixel :: "mat \<Rightarrow> nat \<Rightarrow> nat \<Rightarrow> uchar list" where
  "pixel m i j = take (channels m) (drop (channels m * j) (ptr m ! i))"

text \<open>OpenCV's \<open>borderInterpolate\<close> for \<open>BORDER_REPLICATE\<close>: the coordinate in the source of
  coordinate \<open>p\<close>, which may lie outside \<open>[0, len)\<close>.\<close>

definition borderInterpolate :: "int \<Rightarrow> nat \<Rightarrow> nat" where
  "borderInterpolate p len = (if p < 0 then 0 else if int len \<le> p then len - 1 else nat p)"

text \<open>\<open>cv::copyMakeBorder\<close> with \<open>BORDER_REPLICATE\<close>; it asserts that no border is negative.\<close>

definition copyMakeBorder :: "mat \<Rightarrow> int \<Rightarrow> int \<Rightarrow> int \<Rightarrow> int \<Rightarrow> error + mat" where
  "copyMakeBorder src btop bbottom bleft bright =
     (if btop < 0 \<or> bbottom < 0 \<or> bleft < 0 \<or> bright < 0 \<or> empty_mat src then Inl CvError
      else
        let r = rows src + nat btop + nat bbottom;
            c = cols src + nat bleft + nat bright
        in Inr \<lparr>rows = r, cols = c, channels = channels src,
                ptr = map (\<lambda>i. concat (map (\<lambda>j.
                        pixel src (borderInterpolate (int i - btop) (rows src))
                                  (borderInterpolate (int j - bleft) (cols src))) [0..<c])) [0..<r]\<rparr>)"

text \<open>The region \<open>m(cv::Rect(x, y, w, h))\<close>; OpenCV asserts that the rectangle lies in \<open>m\<close>.\<close>

definition rect_inside :: "mat \<Rightarrow> int \<Rightarrow> int \<Rightarrow> int \<Rightarrow> int \<Rightarrow> bool" where
  "rect_inside m x y w h =
     (0 \<le> x \<and> 0 \<le> w \<and> x + w \<le> int (cols m) \<and> 0 \<le> y \<and> 0 \<le> h \<and> y + h \<le> int (rows m))"

definition mat_roi :: "mat \<Rightarrow> int \<Rightarrow> int \<Rightarrow> int \<Rightarrow> int \<Rightarrow> error + mat" where
  "mat_roi m x y w h =
     (if rect_inside m x y w h
      then Inr \<lparr>rows = nat h, cols = nat w, channels = channels m,
                ptr = map (\<lambda>row. take (channels m * nat w) (drop (channels m * nat x) row))
                          (take (nat h) (drop (nat y) (ptr m)))\<rparr>
      else Inl CvError)"

text \<open>\<open>cv::resize\<close> to \<open>cv::Size(w, h)\<close>: the result has \<open>h\<close> rows and \<open>w\<close> columns; its bytes
  are given by the interpolation \<open>interp\<close>, a parameter (\<open>interp src h w i k\<close> is byte \<open>k\<close> of
  row \<open>i\<close> of the result). OpenCV asserts that neither the source nor the new size is empty.\<close>

type_synonym interpolation = "mat \<Rightarrow> nat \<Rightarrow> nat \<Rightarrow> nat \<Rightarrow> nat \<Rightarrow> uchar"

definition cv_resize :: "interpolation \<Rightarrow> mat \<Rightarrow> int \<Rightarrow> int \<Rightarrow> error + mat" where
  "cv_resize interp src w h =
     (if empty_mat src \<or> w \<le> 0 \<or> h \<le> 0 then Inl CvError
      else Inr \<lparr>rows = nat h, cols = nat w, channels = channels src,
                ptr = map (\<lambda>i. map (\<lambda>k. interp src (nat h) (nat w) i k)
                                    [0..<channels src * nat w]) [0..<nat h]\<rparr>)"

subsection \<open>Padding, cropping and resizing in the box branch\<close>

record border =
  border_top :: int
  border_bottom :: int
  border_left :: int
  border_right :: int

text \<open>Lines 290 to 294.\<close>

definition borders :: "mat \<Rightarrow> crop \<Rightarrow> error + border" where
  "borders cv_img c =
     bind (checked (if crop_x c < 0 then - crop_x c else 0)) (\<lambda>bl.
     bind (checked (if crop_y c < 0 then - crop_y c else 0)) (\<lambda>bt.
     bind (checked (crop_x c + crop_width c)) (\<lambda>xr.
     bind (checked (crop_y c + crop_height c)) (\<lambda>yb.
     Inr \<lparr>border_top = bt,
          border_bottom = (if yb > int (rows cv_img) then yb - int (rows cv_img) else 0),
          border_left = bl,
          border_right = (if xr > int (cols cv_img) then xr - int (cols cv_img) else 0)\<rparr>))))"

text \<open>Lines 296 to 298.\<close>

definition pad :: "mat \<Rightarrow> border \<Rightarrow> error + mat" where
  "pad cv_img b =
     copyMakeBorder cv_img (border_top b) (border_bottom b) (border_left b) (border_right b)"

text \<open>Line 301.\<close>

definition crop_padded :: "mat \<Rightarrow> border \<Rightarrow> crop \<Rightarrow> error + mat" where
  "crop_padded cv_img_padded b c =
     mat_roi cv_img_padded (crop_x c + border_left b) (crop_y c + border_top b)
       (crop_width c) (crop_height c)"

subsection \<open>Remapping the boxes\<close>

text \<open>Lines 315 to 318 and 320 to 323: \<open>data[k] -= crop\<close> converts the integer to \<open>Dtype\<close> and
  rounds the difference; \<open>data[k] *= scaling\<close> rounds the product.\<close>

definition shifted :: "dtype \<Rightarrow> int \<Rightarrow> real \<Rightarrow> real" where
  "shifted dt crop v = fl dt (v - fl dt (real_of_int crop))"

definition scaled :: "dtype \<Rightarrow> real \<Rightarrow> real \<Rightarrow> real" where
  "scaled dt scaling v = fl dt (v * scaling)"

text \<open>Lines 313 to 323, the body of the loop, for box \<open>b\<close>.\<close>

definition update_bb :: "dtype \<Rightarrow> bbtxt_param \<Rightarrow> crop \<Rightarrow> nat \<Rightarrow> blob \<Rightarrow> blob" where
  "update_bb dt p c b label =
     (let d = offset b;
          l1 = label[d + 1 := shifted dt (crop_x c) (label ! (d + 1))];
          l2 = l1[d + 2 := shifted dt (crop_y c) (l1 ! (d + 2))];
          l3 = l2[d + 3 := shifted dt (crop_x c) (l2 ! (d + 3))];
          l4 = l3[d + 4 := shifted dt (crop_y c) (l3 ! (d + 4))];
          l5 = l4[d + 1 := scaled dt (x_scaling p c) (l4 ! (d + 1))];
          l6 = l5[d + 2 := scaled dt (y_scaling p c) (l5 ! (d + 2))];
          l7 = l6[d + 3 := scaled dt (x_scaling p c) (l6 ! (d + 3))]
      in l7[d + 4 := scaled dt (y_scaling p c) (l7 ! (d + 4))])"

text \<open>The scalings and the eight results of the loop body for box \<open>b\<close> are finite; the
  scaling of a crop of width or height 0 is a quotient by zero, an infinity or NaN.\<close>

definition bb_finite :: "dtype \<Rightarrow> bbtxt_param \<Rightarrow> crop \<Rightarrow> blob \<Rightarrow> nat \<Rightarrow> bool" where
  "bb_finite dt p c label b =
     (let d = offset b;
          x1 = shifted dt (crop_x c) (label ! (d + 1));
          y1 = shifted dt (crop_y c) (label ! (d + 2));
          x2 = shifted dt (crop_x c) (label ! (d + 3));
          y2 = shifted dt (crop_y c) (label ! (d + 4))
      in crop_width c \<noteq> 0 \<and> crop_height c \<noteq> 0 \<and>
         list_all (finite_fl dt)
           [x1, y1, x2, y2, scaled dt (x_scaling p c) x1, scaled dt (y_scaling p c) y1,
            scaled dt (x_scaling p c) x2, scaled dt (y_scaling p c) y2])"

text \<open>Lines 310 to 326: the loop over the boxes before the sentinel.\<close>

definition update_bbs :: "dtype \<Rightarrow> bbtxt_param \<Rightarrow> crop \<Rightarrow> blob \<Rightarrow> error + blob" where
  "update_bbs dt p c label =
     (if list_all (bb_finite dt p c label) [0..<numBBs label]
      then Inr (fold (update_bb dt p c) [0..<numBBs label] label)
      else Inl FloatOverflow)"

subsection \<open>Normalisation\<close>

text \<open>Lines 339 to 353. \<open>normalized\<close> is the value written at line 350 for a byte of the
  image: the difference is an integer between \<open>- 128\<close> and 127 and the divisor a power of
  two, so the difference and the quotient are numbers of \<open>float\<close> and nothing is rounded;
  \<open>img_index\<close> is the running index in the row of the cropped image; the loops over the
  rows \<open>i\<close>, the columns \<open>j\<close> and the channels \<open>c\<close> are folds.\<close>

definition normalized :: "uchar \<Rightarrow> real" where
  "normalized v = (real (unat v) - 128) / 128"

definition normalize_channel ::
  "nat \<Rightarrow> nat \<Rightarrow> nat \<Rightarrow> nat \<Rightarrow> uchar list \<Rightarrow> nat \<Rightarrow> real list \<times> nat \<Rightarrow> real list \<times> nat" where
  "normalize_channel h w i j row c =
     (\<lambda>(transformed_data, img_index).
        let top_index = (c * h + i) * w + j
        in (transformed_data[top_index := normalized (row ! img_index)], img_index + 1))"

definition normalize_row :: "nat \<Rightarrow> nat \<Rightarrow> mat \<Rightarrow> nat \<Rightarrow> real list \<Rightarrow> real list" where
  "normalize_row h w m i transformed_data =
     fst (fold (\<lambda>j. fold (normalize_channel h w i j (ptr m ! i)) [0..<3]) [0..<w]
            (transformed_data, 0))"

definition normalize_image :: "bbtxt_param \<Rightarrow> mat \<Rightarrow> real list \<Rightarrow> real list" where
  "normalize_image p m transformed_data =
     fold (normalize_row (nat (height p)) (nat (width p)) m) [0..<nat (height p)] transformed_data"

subsection \<open>\_transformImage\<close>

text \<open>Lines 258 to 330: the image \<open>cv_img_cropped\<close> and the updated label, in both branches.\<close>

definition cropped_image ::
  "dtype \<Rightarrow> bbtxt_param \<Rightarrow> 'g generator \<Rightarrow> interpolation \<Rightarrow> mat \<Rightarrow> blob \<Rightarrow> 'g
     \<Rightarrow> error + mat \<times> blob \<times> 'g" where
  "cropped_image dt p gen interp cv_img transformed_label g =
     (if transformed_label ! 0 = - 1
      then bind (cv_resize interp cv_img (width p) (height p)) (\<lambda>cv_img_cropped.
           Inr (cv_img_cropped, transformed_label, g))
      else bind (select_crop dt p gen transformed_label g) (\<lambda>(bb_id, c, g').
           bind (borders cv_img c) (\<lambda>b.
           bind (pad cv_img b) (\<lambda>cv_img_padded.
           bind (crop_padded cv_img_padded b c) (\<lambda>cv_img_cropped.
           bind (cv_resize interp cv_img_cropped (width p) (height p)) (\<lambda>cv_img_cropped.
           bind (update_bbs dt p c transformed_label) (\<lambda>label.
           Inr (cv_img_cropped, label, g'))))))))"

text \<open>The whole function. The blob \<open>transformed_image\<close> has the shape \<open>1 x 3 x height x width\<close>
  given to it by DataLayerSetUp.\<close>

definition transformImage ::
  "dtype \<Rightarrow> bbtxt_param \<Rightarrow> 'g generator \<Rightarrow> interpolation \<Rightarrow> mat \<Rightarrow> real list \<Rightarrow> blob \<Rightarrow> 'g
     \<Rightarrow> error + real list \<times> blob \<times> 'g" where
  "transformImage dt p gen interp cv_img transformed_image transformed_label g =
     (if channels cv_img \<noteq> 3 then Inl (CheckFailed ''Image must have 3 color channels'')
      else bind (cropped_image dt p gen interp cv_img transformed_label g)
        (\<lambda>(cv_img_cropped, label, g').
           if empty_mat cv_img_cropped
           then Inl (CheckFailed ''Something went wrong with cropping!'')
           else if int (rows cv_img_cropped) \<noteq> height p
           then Inl (CheckFailed ''Wrong crop height! Does not match network!'')
           else if int (cols cv_img_cropped) \<noteq> width p
           then Inl (CheckFailed ''Wrong crop width! Does not match network!'')
           else Inr (normalize_image p cv_img_cropped transformed_image, label, g')))"

subsection \<open>The layer and its random generator\<close>


record 'g layer =
  images :: "(string \<times> blob) list"
  i_global :: nat
  rng :: 'g

text \<open>Modelled from the spec: the function \<open>shuffle(begin, end, gen)\<close> of caffe/util/rng.hpp,
  which \_shuffleImages calls, is not among the sources. The specification describes it as an
  in-place uniform random permutation (Fisher-Yates) of the record sequence, using a
  caller-supplied generator: for \<open>i\<close> from the last index down to 1, the element at \<open>i\<close> is
  swapped with the element at an index drawn from \<open>[0, i]\<close>.\<close>

fun rng_shuffle_loop :: "'g generator \<Rightarrow> nat \<Rightarrow> 'a list \<Rightarrow> 'g \<Rightarrow> 'a list \<times> 'g" where
  "rng_shuffle_loop gen 0 xs g = (xs, g)"
| "rng_shuffle_loop gen (Suc i) xs g =
     (let (j, g') = gen g (0, int (Suc i))
      in rng_shuffle_loop gen i (xs[Suc i := xs ! nat j, nat j := xs ! Suc i]) g')"

definition rng_shuffle :: "'g generator \<Rightarrow> 'a list \<Rightarrow> 'g \<Rightarrow> 'a list \<times> 'g" where
  "rng_shuffle gen xs g = (if xs = [] then (xs, g) else rng_shuffle_loop gen (length xs - 1) xs g)"

text \<open>Lines 233 to 237.\<close>

definition shuffleImages :: "'g generator \<Rightarrow> 'g layer \<Rightarrow> 'g layer" where
  "shuffleImages gen st =
     (let (xs, g) = rng_shuffle gen (images st) (rng st) in st\<lparr>images := xs, rng := g\<rparr>)"

subsection \<open>load\_batch\<close>

text \<open>A loop whose body may fail: the first failure ends it.\<close>

fun loop :: "('a \<Rightarrow> 's \<Rightarrow> error + 's) \<Rightarrow> 'a list \<Rightarrow> 's \<Rightarrow> error + 's" where
  "loop body [] s = Inr s"
| "loop body (x # xs) s = bind (body x s) (loop body xs)"





subsection \<open>\_loadBBTXTFile\<close>

text \<open>\<open>boost::split\<close> with \<open>is_any_of(" ")\<close>: every space ends a field, adjacent spaces give
  empty fields.\<close>

fun boost_split :: "string \<Rightarrow> string list" where
  "boost_split [] = [[]]"
| "boost_split (c # cs) =
     (if c = CHR '' '' then [] # boost_split cs
      else (case boost_split cs of [] \<Rightarrow> [[c]] | t # ts \<Rightarrow> (c # t) # ts))"

text \<open>The state of the loop over the lines: the entries created so far, the file name of the
  current entry, the number \<open>i\<close> of boxes written to it, and the number of warnings logged.\<close>

record reader =
  r_images :: "(string \<times> blob) list"
  current_filename :: string
  r_i :: nat
  warnings :: nat

text \<open>Lines 198 to 200 and 215 to 221 write to the blob of \<open>_images.back()\<close>.\<close>

definition update_back :: "(blob \<Rightarrow> blob) \<Rightarrow> (string \<times> blob) list \<Rightarrow> (string \<times> blob) list" where
  "update_back f imgs = butlast imgs @ [(fst (last imgs), f (snd (last imgs)))]"

text \<open>Lines 191 to 210: a line with a new file name finalizes the last entry and creates a
  new one. \<open>exists\<close> is the file system; \<open>fresh\<close> is the content of a newly created blob.\<close>

definition new_image :: "(string \<Rightarrow> bool) \<Rightarrow> blob \<Rightarrow> string list \<Rightarrow> reader \<Rightarrow> error + reader" where
  "new_image exists fresh data st =
     (if current_filename st \<noteq> data ! 0
      then
        let imgs = (if length (r_images st) > 0 \<and> r_i st < MAX_NUM_BBS_PER_IMAGE
                    then update_back (\<lambda>bl. bl[offset (r_i st) := - 1]) (r_images st)
                    else r_images st)
        in if \<not> exists (data ! 0) then Inl (CheckFailed ''File not found!'')
           else Inr (st\<lparr>r_images := imgs @ [(data ! 0, fresh)], r_i := 0,
                       current_filename := data ! 0\<rparr>)
      else Inr st)"

text \<open>Lines 213 to 227: write the box, or skip it with a warning. \<open>stof\<close> is \<open>None\<close> where
  \<open>std::stof\<close> throws. Writing to \<open>_images.back()\<close> of an empty vector is undefined.\<close>

definition stof_result :: "(string \<Rightarrow> real option) \<Rightarrow> string \<Rightarrow> error + real" where
  "stof_result stof s = (case stof s of None \<Rightarrow> Inl StofError | Some v \<Rightarrow> Inr v)"

definition write_bb :: "(string \<Rightarrow> real option) \<Rightarrow> string list \<Rightarrow> reader \<Rightarrow> error + reader" where
  "write_bb stof data st =
     (if r_i st < MAX_NUM_BBS_PER_IMAGE
      then
        if r_images st = [] then Inl IndexOutOfRange
        else
          bind (stof_result stof (data ! 1)) (\<lambda>label.
          bind (stof_result stof (data ! 3)) (\<lambda>xmin.
          bind (stof_result stof (data ! 4)) (\<lambda>ymin.
          bind (stof_result stof (data ! 5)) (\<lambda>xmax.
          bind (stof_result stof (data ! 6)) (\<lambda>ymax.
          let d = offset (r_i st)
          in Inr (st\<lparr>r_images :=
                       update_back (\<lambda>bl. bl[d := label, d + 1 := xmin, d + 2 := ymin,
                                               d + 3 := xmax, d + 4 := ymax]) (r_images st),
                     r_i := r_i st + 1\<rparr>))))))
      else Inr (st\<lparr>warnings := warnings st + 1\<rparr>))"

text \<open>Lines 188 to 227, the body of the loop for one line.\<close>

definition load_line ::
  "(string \<Rightarrow> bool) \<Rightarrow> (string \<Rightarrow> real option) \<Rightarrow> blob \<Rightarrow> string \<Rightarrow> reader \<Rightarrow> error + reader" where
  "load_line exists stof fresh line st =
     (let data = boost_split line in
      if length data \<noteq> 7 then Inl (CheckFailed ''Line corrupted!'')
      else bind (new_image exists fresh data st) (write_bb stof data))"

text \<open>The whole function; the file is the list of its lines, \<open>None\<close> when it cannot be
  opened. Nothing follows the loop.\<close>

definition loadBBTXTFile ::
  "(string \<Rightarrow> bool) \<Rightarrow> (string \<Rightarrow> real option) \<Rightarrow> blob \<Rightarrow> string list option \<Rightarrow> error + reader" where
  "loadBBTXTFile exists stof fresh infile =
     (case infile of
        None \<Rightarrow> Inl (CheckFailed ''BBTXT file could not be opened!'')
      | Some lines \<Rightarrow>
          loop (load_line exists stof fresh) lines
            \<lparr>r_images = [], current_filename = [], r_i = 0, warnings = 0\<rparr>)"

subsection \<open>DataLayerSetUp\<close>


subsection \<open>Sample parameters\<close>

text \<open>Concrete values for the parameters, used where the model is run on an input: a
  generator reading its draws from a list of numbers, nearest-neighbour interpolation, a
  parser of unsigned decimal numerals, and a blob of zeros.\<close>

definition list_generator :: "nat list generator" where
  "list_generator g =
     (\<lambda>(lo, hi). case g of [] \<Rightarrow> (lo, []) | r # rs \<Rightarrow> (lo + int r mod (hi - lo + 1), rs))"

definition nearest :: interpolation where
  "nearest src h w i k =
     ptr src ! (i * rows src div h)
       ! (channels src * ((k div channels src) * cols src div w) + k mod channels src)"

definition digit_value :: "char \<Rightarrow> nat option" where
  "digit_value c =
     (if c = CHR ''0'' then Some 0 else if c = CHR ''1'' then Some 1
      else if c = CHR ''2'' then Some 2 else if c = CHR ''3'' then Some 3
      else if c = CHR ''4'' then Some 4 else if c = CHR ''5'' then Some 5
      else if c = CHR ''6'' then Some 6 else if c = CHR ''7'' then Some 7
      else if c = CHR ''8'' then Some 8 else if c = CHR ''9'' then Some 9 else None)"

fun digits_value :: "nat \<Rightarrow> string \<Rightarrow> nat option" where
  "digits_value acc [] = Some acc"
| "digits_value acc (c # cs) =
     (case digit_value c of None \<Rightarrow> None | Some d \<Rightarrow> digits_value (10 * acc + d) cs)"

definition decimal_stof :: "string \<Rightarrow> real option" where
  "decimal_stof s = (if s = [] then None else map_option real (digits_value 0 s))"

definition zero_blob :: blob where
  "zero_blob = replicate blob_count 0"

definition example_param :: bbtxt_param where
  "example_param = \<lparr>height = 200, width = 200, reference_size = 50\<rparr>"

text \<open>A label with the single box \<open>[10, 10, 50, 50]\<close> of label 2.\<close>

definition example_label :: blob where
  "example_label = [2, 10, 10, 50, 50, - 1, 0, 0, 0, 0] @ replicate 90 0"

text \<open>A label with the single box \<open>[160.5, 10, 200.5, 50]\<close> of label 2.\<close>

definition fractional_label :: blob where
  "fractional_label = [2, 321 / 2, 10, 401 / 2, 50, - 1, 0, 0, 0, 0] @ replicate 90 0"

text \<open>A label with the single box \<open>[0.3f, 0.3f, 40.3f, 40.3f]\<close> of label 2, the numbers of
  \<open>float\<close> nearest to 0.3 and 40.3.\<close>

definition rounded_label :: blob where
  "rounded_label =
     [2, 5033165 / 16777216, 5033165 / 16777216, 10564403 / 262144, 10564403 / 262144,
      - 1, 0, 0, 0, 0] @ replicate 90 0"

subsection \<open>Auxiliary definitions\<close>

text \<open>The value of entry \<open>n\<close> of a label blob after the remapping of its row.\<close>

definition remap :: "dtype \<Rightarrow> bbtxt_param \<Rightarrow> crop \<Rightarrow> nat \<Rightarrow> real \<Rightarrow> real" where
  "remap dt p c n v =
     (if n mod 5 = 0 then v
      else if n mod 5 = 1 \<or> n mod 5 = 3
      then scaled dt (x_scaling p c) (shifted dt (crop_x c) v)
      else scaled dt (y_scaling p c) (shifted dt (crop_y c) v))"

text \<open>A small input: a \<open>2 x 2\<close> image, a network input of \<open>4 x 4\<close>, two boxes.\<close>

definition tiny_param :: bbtxt_param where
  "tiny_param = \<lparr>height = 4, width = 4, reference_size = 2\<rparr>"

definition tiny_label :: blob where
  "tiny_label = [1, 1, 1, 2, 2, 3, 5, 5, 7, 8, - 1, 0, 0, 0, 0] @ replicate 85 0"

definition tiny_img :: mat where
  "tiny_img = \<lparr>rows = 2, cols = 2, channels = 3,
     ptr = [[0, 128, 255, 1, 2, 3], [4, 5, 6, 7, 8, 9]]\<rparr>"

definition tiny_cropped :: mat where
  "tiny_cropped = \<lparr>rows = 4, cols = 4, channels = 3,
         ptr =
           [[1, 2, 3, 1, 2, 3, 1, 2, 3, 1, 2, 3],
            [1, 2, 3, 1, 2, 3, 1, 2, 3, 1, 2, 3],
            [7, 8, 9, 7, 8, 9, 7, 8, 9, 7, 8, 9],
            [7, 8, 9, 7, 8, 9, 7, 8, 9, 7, 8, 9]]\<rparr>"

definition tiny_remapped :: blob where
  "tiny_remapped = [1, 0, 2, 2, 4, 3, 8, 10, 12, 16, - 1, 0, 0, 0, 0] @ replicate 85 0"

definition tiny_normalized :: "real list" where
  "tiny_normalized =
     [- (127 / 128), - (127 / 128), - (127 / 128), - (127 / 128),
       - (127 / 128), - (127 / 128), - (127 / 128), - (127 / 128),
       - (121 / 128), - (121 / 128), - (121 / 128), - (121 / 128),
       - (121 / 128), - (121 / 128), - (121 / 128), - (121 / 128),
       - (63 / 64), - (63 / 64), - (63 / 64), - (63 / 64), - (63 / 64),
       - (63 / 64), - (63 / 64), - (63 / 64), - (15 / 16), - (15 / 16),
       - (15 / 16), - (15 / 16), - (15 / 16), - (15 / 16), - (15 / 16),
       - (15 / 16), - (125 / 128), - (125 / 128), - (125 / 128),
       - (125 / 128), - (125 / 128), - (125 / 128), - (125 / 128),
       - (125 / 128), - (119 / 128), - (119 / 128), - (119 / 128),
       - (119 / 128), - (119 / 128), - (119 / 128), - (119 / 128),
       - (119 / 128)]"

text \<open>A well-formed image: \<open>rows\<close> rows of \<open>channels * cols\<close> bytes.\<close>

definition wf_mat :: "mat \<Rightarrow> bool" where
  "wf_mat m = (length (ptr m) = rows m \<and> (\<forall>row \<in> set (ptr m). length row = channels m * cols m))"

text \<open>The crop, the border and the padded image of the small input.\<close>

definition tiny_crop :: crop where
  "tiny_crop = \<lparr>crop_x = 1, crop_y = 0, crop_width = 2, crop_height = 2\<rparr>"

definition tiny_border :: border where
  "tiny_border = \<lparr>border_top = 0, border_bottom = 0, border_left = 0, border_right = 1\<rparr>"

definition tiny_padded :: mat where
  "tiny_padded = \<lparr>rows = 2, cols = 3, channels = 3,
     ptr = [[0, 128, 255, 1, 2, 3, 1, 2, 3], [4, 5, 6, 7, 8, 9, 7, 8, 9]]\<rparr>"

text \<open>The index written at line 348, and the value the normalisation gives entry \<open>n\<close> of
  the image blob.\<close>

definition top_index :: "nat \<Rightarrow> nat \<Rightarrow> nat \<Rightarrow> nat \<Rightarrow> nat \<Rightarrow> nat" where
  "top_index h w c i j = (c * h + i) * w + j"

definition target :: "mat \<Rightarrow> nat \<Rightarrow> nat \<Rightarrow> nat \<Rightarrow> real" where
  "target m h w n = normalized (ptr m ! ((n div w) mod h) ! (3 * (n mod w) + n div w div h))"

text \<open>The pixel loop body with the channel loop unrolled.\<close>

definition normalize_pixel :: "nat \<Rightarrow> nat \<Rightarrow> mat \<Rightarrow> nat \<Rightarrow> nat \<Rightarrow> real list \<Rightarrow> real list" where
  "normalize_pixel h w m i j d =
     d[top_index h w 0 i j := normalized (ptr m ! i ! (3 * j)),
       top_index h w 1 i j := normalized (ptr m ! i ! (3 * j + 1)),
       top_index h w 2 i j := normalized (ptr m ! i ! (3 * j + 2))]"

text \<open>The small input without boxes, and the results of the small inputs.\<close>

definition no_box_label :: blob where
  "no_box_label = - 1 # replicate 99 0"

definition tiny_resized :: mat where
  "tiny_resized = \<lparr>rows = 4, cols = 4, channels = 3,
     ptr = [[0, 128, 255, 0, 128, 255, 1, 2, 3, 1, 2, 3],
            [0, 128, 255, 0, 128, 255, 1, 2, 3, 1, 2, 3],
            [4, 5, 6, 4, 5, 6, 7, 8, 9, 7, 8, 9],
            [4, 5, 6, 4, 5, 6, 7, 8, 9, 7, 8, 9]]\<rparr>"

definition tiny_resized_normalized :: "real list" where
  "tiny_resized_normalized =
     [- 1, - 1, - (127 / 128), - (127 / 128), - 1, - 1, - (127 / 128),
       - (127 / 128), - (31 / 32), - (31 / 32), - (121 / 128),
       - (121 / 128), - (31 / 32), - (31 / 32), - (121 / 128),
       - (121 / 128), 0, 0, - (63 / 64), - (63 / 64), 0, 0, - (63 / 64),
       - (63 / 64), - (123 / 128), - (123 / 128), - (15 / 16), - (15 / 16),
       - (123 / 128), - (123 / 128), - (15 / 16), - (15 / 16), 127 / 128,
       127 / 128, - (125 / 128), - (125 / 128), 127 / 128, 127 / 128,
       - (125 / 128), - (125 / 128), - (61 / 64), - (61 / 64),
       - (119 / 128), - (119 / 128), - (61 / 64), - (61 / 64),
       - (119 / 128), - (119 / 128)]"

text \<open>Small layers, a batch of three images and a file of one line.\<close>

definition abc_layer :: "nat list layer" where
  "abc_layer = \<lparr>images = [(''a'', []), (''b'', []), (''c'', [])], i_global = 0, rng = [1, 0]\<rparr>"




definition one_line_file :: "string list" where
  "one_line_file = [''img1.jpg 2 1.0 10 10 50 50'']"

text \<open>A line of the annotation file with 7 fields, the first of them \<open>f\<close>; a reader state
  with \<open>k\<close> more warnings.\<close>

definition line_of :: "string \<Rightarrow> string \<Rightarrow> bool" where
  "line_of f l = (length (boost_split l) = 7 \<and> boost_split l ! 0 = f)"

definition add_warnings :: "nat \<Rightarrow> reader \<Rightarrow> reader" where
  "add_warnings k st = st\<lparr>warnings := warnings st + k\<rparr>"

text \<open>Row \<open>j\<close> of a label blob; the row a line of the file gives, from its fields 2, 4, 5,
  6 and 7; the line is one whose five numbers \<open>std::stof\<close> converts.\<close>

definition blob_row :: "blob \<Rightarrow> nat \<Rightarrow> real list" where
  "blob_row bl j = map (\<lambda>i. bl ! (offset j + i)) [0..<5]"

definition stored_row :: "(string \<Rightarrow> real option) \<Rightarrow> string \<Rightarrow> real list" where
  "stored_row stof line =
     map (\<lambda>s. the (stof s))
       [boost_split line ! 1, boost_split line ! 3, boost_split line ! 4,
        boost_split line ! 5, boost_split line ! 6]"

definition parsed :: "(string \<Rightarrow> real option) \<Rightarrow> string \<Rightarrow> bool" where
  "parsed stof line =
     list_all (\<lambda>s. stof s \<noteq> None)
       [boost_split line ! 1, boost_split line ! 3, boost_split line ! 4,
        boost_split line ! 5, boost_split line ! 6]"

text \<open>Entry \<open>n\<close> of the reader is \<open>e\<close>, and it is full if it is the last entry: then no
  later line changes it.\<close>

definition kept :: "nat \<Rightarrow> string \<times> blob \<Rightarrow> reader \<Rightarrow> bool" where
  "kept n e st =
     (n < length (r_images st) \<and> r_images st ! n = e \<and>
      (length (r_images st) = n + 1 \<longrightarrow> MAX_NUM_BBS_PER_IMAGE \<le> r_i st))"

text \<open>Annotation files: 20 lines of one image, one more line of it, a line of another
  image; the result of reading the file of one line, and that file with another confidence.\<close>

definition full_entry :: "string list" where
  "full_entry = replicate 20 ''a 1 1.0 1 1 2 2''"

definition extra_lines :: "string list" where
  "extra_lines = [''a 9 1.0 9 9 9 9'']"

definition next_entry :: "string list" where
  "next_entry = [''b 1 1.0 1 1 2 2'']"

definition one_line_result :: reader where
  "one_line_result =
     \<lparr>r_images = [(''img1.jpg'', [2, 10, 10, 50, 50] @ replicate 95 0)],
      current_filename = ''img1.jpg'', r_i = 1, warnings = 0\<rparr>"

definition other_confidence :: "string list" where
  "other_confidence = [''img1.jpg 2 77 10 10 50 50'']"

text \<open>The rows after the boxes of the last entry hold the content of the new blob.\<close>

definition unfinalized :: "blob \<Rightarrow> reader \<Rightarrow> bool" where
  "unfinalized fresh st =
     (r_images st \<noteq> [] \<longrightarrow>
        (\<forall>n \<ge> offset (r_i st). snd (last (r_images st)) ! n = fresh ! n))"

section \<open>Basic facts\<close>

lemma bind_Inr_iff: "bind m f = Inr y \<longleftrightarrow> (\<exists>v. m = Inr v \<and> f v = Inr y)"
  by (cases m) (simp_all add: bind_def)

lemma bind_Inr [simp]: "bind (Inr v) f = f v"
  by (simp add: bind_def)

lemma bind_Inl [simp]: "bind (Inl e) f = Inl e"
  by (simp add: bind_def)

lemma to_int_Inr: "to_int r = Inr v \<Longrightarrow> v = trunc_int r \<and> int_ok v"
  by (auto simp: to_int_def split: if_splits)

lemma dist_Inr: "uniform_int_distribution lo hi = Inr d \<Longrightarrow> d = (lo, hi) \<and> lo \<le> hi"
  by (auto simp: uniform_int_distribution_def split: if_splits)

lemmas run_defs =
  select_crop_def select_bb_def crop_position_def crop_size_def numBBs_def
  numBBs_loop.simps MAX_NUM_BBS_PER_IMAGE_def offset_def uniform_int_distribution_def
  list_generator_def bind_def to_int_def trunc_int_def int_ok_def

text \<open>The rounding of a numeral is computed by unfolding these.\<close>

lemmas fl_eval =
  fl_def ilog2_def pow2_def round_even_def precision_def emin_def emax_def Let_def
  compute_bitlen

lemma fl_40: "fl dt 40 = 40"
  by (cases dt) (simp_all add: fl_eval)

text \<open>Some values of the rounding: the numbers nearest to 0.1, two ties, a subnormal
  number, and three computations of the program.\<close>

lemma fl_examples:
  "fl Float (1 / 10) = 13421773 / 134217728"
  "fl Double (1 / 10) = 3602879701896397 / 36028797018963968"
  "fl Float 16777217 = 16777216"
  "fl Float 16777219 = 16777220"
  "fl Float (1 / 10 ^ 45) = 1 / 2 ^ 149"
  "fl Double (fl Double (200 / 97) * 97) = 7036874417766399 / 35184372088832"
  "fl Float (fl Float (403 / 10) - fl Float (3 / 10)) = 40"
  "fl Float (120 * fl Float (fl Float 200 / fl Float 161)) = 4884671 / 32768"
  by code_simp+

subsection \<open>numBBs\<close>

lemma numBBs_loop_props:
  "i \<le> MAX_NUM_BBS_PER_IMAGE \<Longrightarrow>
     i \<le> numBBs_loop labels i \<and> numBBs_loop labels i \<le> MAX_NUM_BBS_PER_IMAGE \<and>
     (\<forall>b. i \<le> b \<and> b < numBBs_loop labels i \<longrightarrow> labels ! offset b \<noteq> - 1) \<and>
     (numBBs_loop labels i < MAX_NUM_BBS_PER_IMAGE \<longrightarrow>
        labels ! offset (numBBs_loop labels i) = - 1)"
proof (induction labels i rule: numBBs_loop.induct)
  case (1 labels i)
  show ?case
  proof (cases "i < MAX_NUM_BBS_PER_IMAGE")
    case False
    have "numBBs_loop labels i = MAX_NUM_BBS_PER_IMAGE"
      using False by (subst numBBs_loop.simps) simp
    then show ?thesis using "1.prems" False by simp
  next
    case True
    show ?thesis
    proof (cases "labels ! offset i = - 1")
      case True
      with \<open>i < MAX_NUM_BBS_PER_IMAGE\<close> show ?thesis
        by (simp add: numBBs_loop.simps [of labels i])
    next
      case False
      with True have eq: "numBBs_loop labels i = numBBs_loop labels (Suc i)"
        by (simp add: numBBs_loop.simps [of labels i])
      from True have "Suc i \<le> MAX_NUM_BBS_PER_IMAGE" by simp
      from "1.IH" [OF True False this] show ?thesis
        unfolding eq using False
        by (metis Suc_leI le_neq_implies_less Suc_leD)
    qed
  qed
qed

lemma numBBs_le: "numBBs labels \<le> MAX_NUM_BBS_PER_IMAGE"
  using numBBs_loop_props [of 0 labels] by (simp add: numBBs_def)

lemma numBBs_real: "b < numBBs labels \<Longrightarrow> labels ! offset b \<noteq> - 1"
  using numBBs_loop_props [of 0 labels] by (simp add: numBBs_def)

lemma numBBs_sentinel:
  "numBBs labels < MAX_NUM_BBS_PER_IMAGE \<Longrightarrow> labels ! offset (numBBs labels) = - 1"
  using numBBs_loop_props [of 0 labels] by (simp add: numBBs_def)

subsection \<open>The crop\<close>

lemma crop_size_Inr:
  assumes "crop_size p w h = Inr (cw, ch)"
  shows "cw = trunc_int (fl Double
                 (fl Double (real_of_int (width p) / real_of_int (reference_size p)) * max w h))"
    and "ch = trunc_int (fl Double
                 (fl Double (real_of_int (height p) / real_of_int (reference_size p)) * max w h))"
    and "reference_size p \<noteq> 0"
  using assms
  by (auto simp: crop_size_def Let_def bind_Inr_iff split: if_splits dest!: to_int_Inr)

lemma select_bb_Inr:
  assumes "select_bb gen label g = Inr (bb_id, g1)"
  shows "0 < numBBs label" and "gen g (0, int (numBBs label) - 1) = (bb_id, g1)"
  using assms
  by (auto simp: select_bb_def Let_def bind_Inr_iff dest!: dist_Inr)

lemma crop_position_Inr:
  assumes "crop_position dt gen x y w h cw ch g = Inr (cx, cy, g')"
  shows "\<exists>g1. int_ok (trunc_int (fl dt (fl dt (x + w) - fl dt (real_of_int cw)))) \<and>
           int_ok (trunc_int x) \<and>
           trunc_int (fl dt (fl dt (x + w) - fl dt (real_of_int cw))) \<le> trunc_int x \<and>
           int_ok (trunc_int (fl dt (fl dt (y + h) - fl dt (real_of_int ch)))) \<and>
           int_ok (trunc_int y) \<and>
           trunc_int (fl dt (fl dt (y + h) - fl dt (real_of_int ch))) \<le> trunc_int y \<and>
           gen g (trunc_int (fl dt (fl dt (x + w) - fl dt (real_of_int cw))), trunc_int x)
             = (cx, g1) \<and>
           gen g1 (trunc_int (fl dt (fl dt (y + h) - fl dt (real_of_int ch))), trunc_int y)
             = (cy, g')"
proof -
  let ?xlo = "trunc_int (fl dt (fl dt (x + w) - fl dt (real_of_int cw)))"
  let ?ylo = "trunc_int (fl dt (fl dt (y + h) - fl dt (real_of_int ch)))"
  obtain cx0 g1 where e1: "gen g (?xlo, trunc_int x) = (cx0, g1)"
    by (cases "gen g (?xlo, trunc_int x)")
  obtain cy0 g2 where e2: "gen g1 (?ylo, trunc_int y) = (cy0, g2)"
    by (cases "gen g1 (?ylo, trunc_int y)")
  from assms e1 e2 show ?thesis
    by (simp add: crop_position_def to_int_def uniform_int_distribution_def bind_def
         split: if_splits)
qed

lemma select_crop_Inr:
  assumes "select_crop dt p gen label g = Inr (k, c, g')"
  shows "\<exists>bb_id g1. select_bb gen label g = Inr (bb_id, g1) \<and> k = nat bb_id \<and>
     crop_size p (fl dt (label ! (offset k + 3) - label ! (offset k + 1)))
                 (fl dt (label ! (offset k + 4) - label ! (offset k + 2)))
       = Inr (crop_width c, crop_height c) \<and>
     crop_position dt gen (label ! (offset k + 1)) (label ! (offset k + 2))
        (fl dt (label ! (offset k + 3) - label ! (offset k + 1)))
        (fl dt (label ! (offset k + 4) - label ! (offset k + 2))) (crop_width c) (crop_height c) g1
       = Inr (crop_x c, crop_y c, g')"
  using assms unfolding select_crop_def Let_def
  by (auto simp: bind_Inr_iff split: prod.splits if_splits)

lemma select_crop_example:
  "select_crop Float example_param list_generator example_label [0, 0, 0] =
     Inr (0, \<lparr>crop_x = - 110, crop_y = - 110, crop_width = 160, crop_height = 160\<rparr>, [])"
  "select_crop Double example_param list_generator example_label [0, 0, 0] =
     Inr (0, \<lparr>crop_x = - 110, crop_y = - 110, crop_width = 160, crop_height = 160\<rparr>, [])"
  by code_simp+

text \<open>The width of the box \<open>[0.3f, 0.3f, 40.3f, 40.3f]\<close> is the difference rounded to
  \<open>float\<close>, which is 40.\<close>

lemma select_crop_rounded:
  "select_crop Float example_param list_generator rounded_label [0, 0, 0] =
     Inr (0, \<lparr>crop_x = - 119, crop_y = - 119, crop_width = 160, crop_height = 160\<rparr>, [])"
  by code_simp

subsection \<open>Remapping\<close>

lemma length_update_bb [simp]: "length (update_bb dt p c b label) = length label"
  by (simp add: update_bb_def Let_def)

lemma update_bb_nth:
  assumes "offset b + 4 < length label"
  shows "update_bb dt p c b label ! n =
           (if offset b \<le> n \<and> n < offset b + 5 then remap dt p c n (label ! n) else label ! n)"
proof -
  have m: "(b * 5 + k) mod 5 = k mod 5" for k by simp
  consider "n < offset b" | "n = offset b" | "n = offset b + 1" | "n = offset b + 2"
    | "n = offset b + 3" | "n = offset b + 4" | "n \<ge> offset b + 5"
    by linarith
  then show ?thesis
    using assms
    by cases (simp_all add: update_bb_def Let_def remap_def offset_def m mod_Suc nth_list_update)
qed

lemma update_bbs_fold_nth:
  assumes "offset nb \<le> length label"
  shows "length (fold (update_bb dt p c) [0..<nb] label) = length label \<and>
         fold (update_bb dt p c) [0..<nb] label ! n =
           (if n < offset nb then remap dt p c n (label ! n) else label ! n)"
  using assms
proof (induction nb arbitrary: n)
  case 0
  then show ?case by (simp add: offset_def)
next
  case (Suc nb)
  let ?l = "fold (update_bb dt p c) [0..<nb] label"
  from Suc.prems have le: "offset nb \<le> length label" and lt: "offset nb + 4 < length label"
    by (simp_all add: offset_def)
  note IH = Suc.IH [OF le]
  have len: "length ?l = length label" using IH by blast
  have nth: "?l ! k = (if k < offset nb then remap dt p c k (label ! k) else label ! k)" for k
    using IH by blast
  have f: "fold (update_bb dt p c) [0..<Suc nb] label = update_bb dt p c nb ?l"
    by simp
  have lt': "offset nb + 4 < length ?l" using lt len by simp
  show ?case
    unfolding f
    by (simp add: update_bb_nth [OF lt'] len nth) (auto simp: offset_def)
qed

lemma numBBs_loop_cong:
  assumes "\<And>b. b < MAX_NUM_BBS_PER_IMAGE \<Longrightarrow> l' ! offset b = l ! offset b"
  shows "numBBs_loop l' i = numBBs_loop l i"
proof (induction "MAX_NUM_BBS_PER_IMAGE - i" arbitrary: i)
  case 0
  then have "\<not> i < MAX_NUM_BBS_PER_IMAGE" by simp
  then show ?case
    by (simp add: numBBs_loop.simps [of l' i] numBBs_loop.simps [of l i])
next
  case (Suc n)
  then have lt: "i < MAX_NUM_BBS_PER_IMAGE" and n: "n = MAX_NUM_BBS_PER_IMAGE - Suc i"
    by simp_all
  from Suc.hyps(1) [OF n] have "numBBs_loop l' (Suc i) = numBBs_loop l (Suc i)" .
  with lt assms [OF lt] show ?case
    by (simp add: numBBs_loop.simps [of l' i] numBBs_loop.simps [of l i])
qed

lemma update_bbs_Inr:
  assumes "update_bbs dt p c label = Inr label'"
  shows "label' = fold (update_bb dt p c) [0..<numBBs label] label"
    and "b < numBBs label \<Longrightarrow> bb_finite dt p c label b"
  using assms
  by (auto simp: update_bbs_def list_all_iff split: if_splits)

lemma update_bbs_nth:
  assumes "length label = blob_count" and "update_bbs dt p c label = Inr label'"
  shows "length label' = blob_count"
    and "label' ! n =
           (if n < offset (numBBs label) then remap dt p c n (label ! n) else label ! n)"
proof -
  have "offset (numBBs label) \<le> length label"
    using numBBs_le [of label] assms(1) by (simp add: offset_def blob_count_def)
  from update_bbs_fold_nth [OF this, of dt p c n] assms(1)
  show "length label' = blob_count"
    and "label' ! n =
           (if n < offset (numBBs label) then remap dt p c n (label ! n) else label ! n)"
    by (simp_all add: update_bbs_Inr(1) [OF assms(2)])
qed

lemma numBBs_update_bbs:
  assumes "length label = blob_count" and "update_bbs dt p c label = Inr label'"
  shows "numBBs label' = numBBs label"
  unfolding numBBs_def
  by (rule numBBs_loop_cong) (simp add: update_bbs_nth(2) [OF assms] remap_def offset_def)

lemma cropped_image_box_Inr:
  assumes "transformed_label ! 0 \<noteq> - 1"
    and "cropped_image dt p gen interp cv_img transformed_label g = Inr (m, label', g')"
  shows "\<exists>k c b padded cropped.
           select_crop dt p gen transformed_label g = Inr (k, c, g') \<and>
           borders cv_img c = Inr b \<and> pad cv_img b = Inr padded \<and>
           crop_padded padded b c = Inr cropped \<and>
           cv_resize interp cropped (width p) (height p) = Inr m \<and>
           update_bbs dt p c transformed_label = Inr label'"
  using assms unfolding cropped_image_def
  by (auto simp: bind_Inr_iff split: prod.splits)

lemma transformImage_Inr:
  assumes "transformImage dt p gen interp cv_img transformed_image transformed_label g
             = Inr (d, label', g')"
  shows "\<exists>m. cropped_image dt p gen interp cv_img transformed_label g = Inr (m, label', g') \<and>
           channels cv_img = 3 \<and>
           int (rows m) = height p \<and> int (cols m) = width p \<and> \<not> empty_mat m \<and>
           d = normalize_image p m transformed_image"
  using assms unfolding transformImage_def
  by (auto simp: bind_Inr_iff split: prod.splits if_splits)

lemma transformImage_tiny:
  "transformImage Float tiny_param list_generator nearest tiny_img (replicate 48 0) tiny_label
     [0, 1, 0] = Inr (tiny_normalized, tiny_remapped, [])"
  by code_simp

lemma select_crop_tiny:
  "select_crop Float tiny_param list_generator tiny_label [0, 1, 0]
     = Inr (0, \<lparr>crop_x = 1, crop_y = 0, crop_width = 2, crop_height = 2\<rparr>, [])"
  by code_simp

subsection \<open>Padding\<close>

lemma checked_Inr: "checked v = Inr w \<Longrightarrow> w = v \<and> int_ok v"
  by (auto simp: checked_def split: if_splits)

lemma borders_Inr:
  assumes "borders cv_img c = Inr b"
  shows "border_left b = (if crop_x c < 0 then - crop_x c else 0)"
    and "border_top b = (if crop_y c < 0 then - crop_y c else 0)"
    and "border_right b = (if crop_x c + crop_width c > int (cols cv_img)
                           then crop_x c + crop_width c - int (cols cv_img) else 0)"
    and "border_bottom b = (if crop_y c + crop_height c > int (rows cv_img)
                            then crop_y c + crop_height c - int (rows cv_img) else 0)"
  using assms unfolding borders_def
  by (auto simp: bind_Inr_iff dest!: checked_Inr)

lemma chunk_bound: "j < n \<Longrightarrow> ch * j + ch \<le> ch * (n::nat)"
  using mult_le_mono2 [of "Suc j" n ch] by simp

lemma length_concat_chunks:
  "(\<And>k. k < n \<Longrightarrow> length (f k) = ch) \<Longrightarrow> length (concat (map f [0..<n])) = ch * n"
  by (induction n) simp_all

lemma concat_chunk:
  assumes "\<And>k. k < n \<Longrightarrow> length (f k) = ch" and "j < n"
  shows "take ch (drop (ch * j) (concat (map f [0..<n]))) = f j"
  using assms
proof (induction n)
  case 0
  then show ?case by simp
next
  case (Suc n)
  have len: "length (concat (map f [0..<n])) = ch * n"
    using Suc.prems(1) by (intro length_concat_chunks) simp
  show ?case
  proof (cases "j = n")
    case True
    then show ?thesis using len Suc.prems(1) [of n] by simp
  next
    case False
    with Suc.prems have j: "j < n" by simp
    then have "ch * j + ch \<le> ch * n"
      by (rule chunk_bound)
    then have "take ch (drop (ch * j) (concat (map f [0..<n]) @ f n))
        = take ch (drop (ch * j) (concat (map f [0..<n])))"
      using len by simp
    with Suc.IH [OF _ j] Suc.prems(1) show ?thesis by simp
  qed
qed

lemma borderInterpolate_less: "0 < len \<Longrightarrow> borderInterpolate p len < len"
  by (auto simp: borderInterpolate_def)

lemma length_pixel:
  "wf_mat m \<Longrightarrow> i < rows m \<Longrightarrow> j < cols m \<Longrightarrow> length (pixel m i j) = channels m"
proof -
  assume wf: "wf_mat m" and i: "i < rows m" and j: "j < cols m"
  then have "length (ptr m ! i) = channels m * cols m"
    by (simp add: wf_mat_def)
  moreover from j have "channels m * j + channels m \<le> channels m * cols m"
    by (rule chunk_bound)
  ultimately show ?thesis by (simp add: pixel_def)
qed

lemma copyMakeBorder_props:
  assumes "\<not> empty_mat src" and "0 \<le> t" "0 \<le> b" "0 \<le> l" "0 \<le> r"
  shows "\<exists>dst. copyMakeBorder src t b l r = Inr dst \<and>
           rows dst = rows src + nat t + nat b \<and> cols dst = cols src + nat l + nat r \<and>
           channels dst = channels src \<and>
           (wf_mat src \<longrightarrow> wf_mat dst \<and> (\<forall>i < rows dst. \<forall>j < cols dst.
               pixel dst i j = pixel src (borderInterpolate (int i - t) (rows src))
                                          (borderInterpolate (int j - l) (cols src))))"
proof -
  let ?r = "rows src + nat t + nat b" and ?c = "cols src + nat l + nat r"
  let ?px = "\<lambda>i j. pixel src (borderInterpolate (int i - t) (rows src))
                                (borderInterpolate (int j - l) (cols src))"
  let ?dst = "\<lparr>rows = ?r, cols = ?c, channels = channels src,
                ptr = map (\<lambda>i. concat (map (?px i) [0..<?c])) [0..<?r]\<rparr>"
  have eq: "copyMakeBorder src t b l r = Inr ?dst"
    using assms by (simp add: copyMakeBorder_def Let_def)
  have pos: "0 < rows src" "0 < cols src" using assms(1) by (simp_all add: empty_mat_def)
  have px: "pixel ?dst i j = ?px i j \<and> length (ptr ?dst ! i) = channels src * ?c"
    if wf: "wf_mat src" and i: "i < ?r" and j: "j < ?c" for i j
  proof -
    have len: "length (?px i k) = channels src" for k
      using wf pos by (simp add: length_pixel borderInterpolate_less)
    have "pixel ?dst i j = take (channels src) (drop (channels src * j)
            (concat (map (?px i) [0..<?c])))"
      using i by (simp add: pixel_def)
    also have "\<dots> = ?px i j"
      by (rule concat_chunk) (simp_all add: len j)
    finally show ?thesis using i len by (simp add: length_concat_chunks)
  qed
  have "wf_mat ?dst" if wf: "wf_mat src"
    unfolding wf_mat_def
  proof (intro conjI ballI)
    show "length (ptr ?dst) = rows ?dst" by simp
  next
    fix row assume "row \<in> set (ptr ?dst)"
    then obtain i where "i < ?r" "row = ptr ?dst ! i"
      by (auto simp: in_set_conv_nth)
    with px [OF wf, of i 0] pos show "length row = channels ?dst * cols ?dst"
      by simp
  qed
  with px eq show ?thesis
    by (intro exI [of _ ?dst]) simp
qed

lemma crop_positive:
  assumes "crop_padded padded b c = Inr cropped" "cv_resize interp cropped w h = Inr m"
  shows "0 < crop_width c" and "0 < crop_height c"
  using assms
  by (auto simp: crop_padded_def mat_roi_def cv_resize_def empty_mat_def rect_inside_def
      split: if_splits)

lemma borders_tiny: "borders tiny_img tiny_crop = Inr tiny_border"
  by code_simp

lemma pad_tiny: "pad tiny_img tiny_border = Inr tiny_padded"
  by code_simp

subsection \<open>Normalisation\<close>

lemma top_index_less:
  assumes "c < 3" "i < h" "j < w"
  shows "top_index h w c i j < 3 * h * w"
proof -
  have "c * h + i < 3 * h" using assms(1,2)
    by (metis Suc_leI add_less_cancel_left less_le_trans mult_Suc mult_le_mono1 add.commute)
  then have "(c * h + i) * w + w \<le> 3 * h * w"
    using chunk_bound [of "c * h + i" "3 * h" w] by (simp add: mult.commute)
  with assms(3) show ?thesis by (simp add: top_index_def)
qed

lemma target_top_index:
  assumes "i < h" "j < w"
  shows "target m h w (top_index h w c i j) = normalized (ptr m ! i ! (3 * j + c))"
  using assms by (simp add: target_def top_index_def)

lemma fold_writes:
  assumes "\<And>k d. k \<in> set ks \<Longrightarrow> length d = L \<Longrightarrow>
             length (f k d) = L \<and> (\<forall>n. f k d ! n = (if n \<in> W k then T n else d ! n))"
    and "length d = L"
  shows "length (fold f ks d) = L \<and>
         (\<forall>n. fold f ks d ! n = (if n \<in> (\<Union>k \<in> set ks. W k) then T n else d ! n))"
  using assms
proof (induction ks arbitrary: d)
  case Nil
  then show ?case by simp
next
  case (Cons k ks)
  from Cons.prems(1) [of k d] Cons.prems(2)
  have fk: "length (f k d) = L" "\<And>n. f k d ! n = (if n \<in> W k then T n else d ! n)"
    by simp_all
  have "length (fold f ks (f k d)) = L \<and>
         (\<forall>n. fold f ks (f k d) ! n = (if n \<in> (\<Union>k \<in> set ks. W k) then T n else f k d ! n))"
    by (rule Cons.IH) (use Cons.prems(1) fk(1) in auto)
  then show ?case by (auto simp: fk(2))
qed

text \<open>The three channels of one pixel.\<close>

lemma fold_channels:
  "fold (normalize_channel h w i j row) [0..<3] (d, k) =
     (d[top_index h w 0 i j := normalized (row ! k),
        top_index h w 1 i j := normalized (row ! (k + 1)),
        top_index h w 2 i j := normalized (row ! (k + 2))], k + 3)"
proof -
  have "[0..<3] = [0, 1, 2::nat]" by (simp add: upt_rec)
  then show ?thesis
    by (simp add: normalize_channel_def top_index_def Let_def)
qed

lemma fold_columns:
  "fold (\<lambda>j. fold (normalize_channel h w i j (ptr m ! i)) [0..<3]) [0..<n] (d, 0)
     = (fold (normalize_pixel h w m i) [0..<n] d, 3 * n)"
  by (induction n) (simp_all add: fold_channels normalize_pixel_def)

lemma normalize_row_eq:
  "normalize_row h w m i d = fold (normalize_pixel h w m i) [0..<w] d"
  by (simp add: normalize_row_def fold_columns)

lemma normalize_pixel_writes:
  assumes "i < h" "j < w" "length d = 3 * h * w"
  shows "length (normalize_pixel h w m i j d) = 3 * h * w \<and>
         (\<forall>n. normalize_pixel h w m i j d ! n =
            (if n \<in> {top_index h w c i j | c. c < 3} then target m h w n else d ! n))"
proof -
  have s: "{top_index h w c i j | c. c < 3}
      = {top_index h w 0 i j, top_index h w 1 i j, top_index h w 2 i j}"
    by (auto simp: less_Suc_eq numeral_3_eq_3 numeral_2_eq_2)
  have lt: "top_index h w c i j < length d" if "c < 3" for c
    using top_index_less [OF that assms(1,2)] assms(3) by simp
  have t: "target m h w (top_index h w c i j) = normalized (ptr m ! i ! (3 * j + c))" for c
    by (rule target_top_index [OF assms(1,2)])
  show ?thesis
    unfolding s using lt [of 0] lt [of 1] lt [of 2] t [of 0] t [of 1] t [of 2] assms(3)
    by (auto simp: normalize_pixel_def nth_list_update)
qed

lemma normalize_row_writes:
  assumes "i < h" "length d = 3 * h * w"
  shows "length (normalize_row h w m i d) = 3 * h * w \<and>
         (\<forall>n. normalize_row h w m i d ! n =
            (if n \<in> (\<Union>j \<in> set [0..<w]. {top_index h w c i j | c. c < 3})
             then target m h w n else d ! n))"
  unfolding normalize_row_eq
  by (rule fold_writes) (use assms normalize_pixel_writes in auto)

lemma normalize_image_writes:
  assumes "length d = 3 * nat (height p) * nat (width p)"
  shows "length (normalize_image p m d) = 3 * nat (height p) * nat (width p) \<and>
         (\<forall>n. normalize_image p m d ! n =
            (if n \<in> (\<Union>i \<in> set [0..<nat (height p)]. \<Union>j \<in> set [0..<nat (width p)].
                        {top_index (nat (height p)) (nat (width p)) c i j | c. c < 3})
             then target m (nat (height p)) (nat (width p)) n else d ! n))"
  unfolding normalize_image_def
  by (rule fold_writes) (use assms normalize_row_writes in auto)

lemma normalize_image_nth:
  assumes "length d = 3 * nat (height p) * nat (width p)"
    and "c < 3" "i < nat (height p)" "j < nat (width p)"
  shows "normalize_image p m d ! ((c * nat (height p) + i) * nat (width p) + j)
           = normalized (ptr m ! i ! (3 * j + c))"
proof -
  let ?h = "nat (height p)" and ?w = "nat (width p)"
  let ?W = "\<lambda>i. (\<Union>j \<in> set [0..<?w]. {top_index ?h ?w c i j | c. c < 3})"
  note w = normalize_image_writes [OF assms(1), of m]
  have "top_index ?h ?w c i j \<in> {top_index ?h ?w c' i j | c'. c' < 3}"
    using assms(2) by blast
  moreover have "j \<in> set [0..<?w]" "i \<in> set [0..<?h]"
    using assms(3,4) by simp_all
  ultimately have "top_index ?h ?w c i j \<in> (\<Union>i \<in> set [0..<?h]. ?W i)"
    by blast
  with w have "normalize_image p m d ! top_index ?h ?w c i j
      = target m ?h ?w (top_index ?h ?w c i j)"
    by simp
  then show ?thesis
    using target_top_index [OF assms(3,4), of m c] by (simp add: top_index_def)
qed

lemma cropped_image_tiny:
  "cropped_image Float tiny_param list_generator nearest tiny_img tiny_label [0, 1, 0]
     = Inr (tiny_cropped, tiny_remapped, [])"
  by code_simp

lemma cropped_image_no_box:
  "cropped_image Float tiny_param list_generator nearest tiny_img no_box_label [0, 1, 0]
     = Inr (tiny_resized, no_box_label, [0, 1, 0])"
  by code_simp

lemma transformImage_no_box:
  "transformImage Float tiny_param list_generator nearest tiny_img (replicate 48 0) no_box_label [0, 1, 0]
     = Inr (tiny_resized_normalized, no_box_label, [0, 1, 0])"
  by code_simp

subsection \<open>Shuffling\<close>

lemma list_generator_in_range: "draws_in_range list_generator"
  unfolding draws_in_range_def list_generator_def
proof (intro allI impI)
  fix g :: "nat list" and lo hi :: int
  assume "lo \<le> hi"
  then have pos: "0 < hi - lo + 1" by simp
  show "lo \<le> fst (case (lo, hi) of (lo, hi) \<Rightarrow> case g of [] \<Rightarrow> (lo, []) | r # rs \<Rightarrow> (lo + int r mod (hi - lo + 1), rs)) \<and>
        fst (case (lo, hi) of (lo, hi) \<Rightarrow> case g of [] \<Rightarrow> (lo, []) | r # rs \<Rightarrow> (lo + int r mod (hi - lo + 1), rs)) \<le> hi"
  proof (cases g)
    case Nil
    then show ?thesis using \<open>lo \<le> hi\<close> by simp
  next
    case (Cons r rs)
    have "0 \<le> int r mod (hi - lo + 1)" "int r mod (hi - lo + 1) \<le> hi - lo"
      using pos_mod_sign [OF pos, of "int r"] pos_mod_bound [OF pos, of "int r"] by linarith+
    then show ?thesis using Cons by simp
  qed
qed

lemma length_rng_shuffle_loop:
  "length (fst (rng_shuffle_loop gen i xs g)) = length xs"
  by (induction i arbitrary: xs g) (simp_all add: Let_def split: prod.splits)

lemma length_rng_shuffle: "length (fst (rng_shuffle gen xs g)) = length xs"
  by (simp add: rng_shuffle_def length_rng_shuffle_loop)

lemma mset_rng_shuffle_loop:
  assumes "draws_in_range gen" and "i < length xs"
  shows "mset (fst (rng_shuffle_loop gen i xs g)) = mset xs"
  using assms(2)
proof (induction i arbitrary: xs g)
  case 0
  then show ?case by simp
next
  case (Suc i)
  obtain j g' where d: "gen g (0, int (Suc i)) = (j, g')"
    by (cases "gen g (0, int (Suc i))")
  from assms(1) have "0 \<le> fst (gen g (0, int (Suc i))) \<and> fst (gen g (0, int (Suc i))) \<le> int (Suc i)"
    unfolding draws_in_range_def by (metis of_nat_0_le_iff)
  with d have j: "nat j \<le> Suc i" by auto
  let ?ys = "xs[Suc i := xs ! nat j, nat j := xs ! Suc i]"
  have "mset ?ys = mset xs"
    using Suc.prems j by (intro mset_swap) simp_all
  moreover have "mset (fst (rng_shuffle_loop gen i ?ys g')) = mset ?ys"
    by (rule Suc.IH) (use Suc.prems in simp)
  ultimately show ?case by (simp add: d del: of_nat_Suc)
qed

lemma mset_rng_shuffle:
  "draws_in_range gen \<Longrightarrow> mset (fst (rng_shuffle gen xs g)) = mset xs"
  by (cases "xs = []") (simp_all add: rng_shuffle_def mset_rng_shuffle_loop)

lemma shuffleImages_simps:
  "images (shuffleImages gen st) = fst (rng_shuffle gen (images st) (rng st))"
  "rng (shuffleImages gen st) = snd (rng_shuffle gen (images st) (rng st))"
  "i_global (shuffleImages gen st) = i_global st"
  by (simp_all add: shuffleImages_def split: prod.splits)

lemma shuffle_abc:
  "images (shuffleImages list_generator abc_layer) = [(''c'', []), (''a'', []), (''b'', [])]"
  by code_simp

subsection \<open>The index of the next image\<close>

lemma bind_neq: "m \<noteq> Inl e \<Longrightarrow> (\<And>v. m = Inr v \<Longrightarrow> f v \<noteq> Inl e) \<Longrightarrow> bind m f \<noteq> Inl e"
  by (cases m) auto

lemma bind_Inl_iff: "bind m f = Inl e \<longleftrightarrow> m = Inl e \<or> (\<exists>v. m = Inr v \<and> f v = Inl e)"
  by (cases m) auto

lemma to_int_in_range [simp]: "to_int r \<noteq> Inl IndexOutOfRange"
  by (simp add: to_int_def)

lemma checked_in_range [simp]: "checked v \<noteq> Inl IndexOutOfRange"
  by (simp add: checked_def)

lemma dist_in_range [simp]: "uniform_int_distribution lo hi \<noteq> Inl IndexOutOfRange"
  by (simp add: uniform_int_distribution_def)

lemma cv_resize_in_range [simp]: "cv_resize interp src w h \<noteq> Inl IndexOutOfRange"
  by (simp add: cv_resize_def)

lemma pad_in_range [simp]: "pad cv_img b \<noteq> Inl IndexOutOfRange"
  by (simp add: pad_def copyMakeBorder_def Let_def)

lemma crop_padded_in_range [simp]: "crop_padded m b c \<noteq> Inl IndexOutOfRange"
  by (simp add: crop_padded_def mat_roi_def)

lemma borders_in_range [simp]: "borders cv_img c \<noteq> Inl IndexOutOfRange"
  unfolding borders_def by (intro bind_neq) simp_all

lemma crop_size_in_range [simp]: "crop_size p w h \<noteq> Inl IndexOutOfRange"
  by (auto simp: crop_size_def Let_def bind_Inl_iff)

lemma select_bb_in_range [simp]: "select_bb gen label g \<noteq> Inl IndexOutOfRange"
  unfolding select_bb_def Let_def by (intro bind_neq) simp_all

lemma crop_position_in_range [simp]:
  "crop_position dt gen x y w h cw ch g \<noteq> Inl IndexOutOfRange"
  unfolding crop_position_def by (intro bind_neq) (simp_all split: prod.splits)

lemma select_crop_in_range [simp]: "select_crop dt p gen label g \<noteq> Inl IndexOutOfRange"
  by (auto simp: select_crop_def Let_def bind_Inl_iff split: prod.splits)

lemma update_bbs_in_range [simp]: "update_bbs dt p c label \<noteq> Inl IndexOutOfRange"
  by (simp add: update_bbs_def)

lemma cropped_image_in_range [simp]:
  "cropped_image dt p gen interp cv_img label g \<noteq> Inl IndexOutOfRange"
  by (auto simp: cropped_image_def bind_Inl_iff split: prod.splits)

lemma transformImage_in_range [simp]:
  "transformImage dt p gen interp cv_img timg label g \<noteq> Inl IndexOutOfRange"
  by (auto simp: transformImage_def bind_Inl_iff split: prod.splits)

lemma length_images_shuffleImages [simp]:
  "length (images (shuffleImages gen st)) = length (images st)"
  by (simp add: shuffleImages_simps length_rng_shuffle)






lemma images_shuffleImages_Nil [simp]:
  "images (shuffleImages gen st) = [] \<longleftrightarrow> images st = []"
  using length_images_shuffleImages [of gen st] by (metis length_0_conv)


subsection \<open>Reading the annotation file\<close>

lemma loop_append: "loop body (xs @ ys) s = bind (loop body xs s) (loop body ys)"
  by (induction xs arbitrary: s) (simp_all add: bind_def split: sum.splits)

lemma add_warnings_0 [simp]: "add_warnings 0 st = st"
  by (simp add: add_warnings_def)

lemma add_warnings_add: "add_warnings j (add_warnings k st) = add_warnings (k + j) st"
  by (simp add: add_warnings_def add.assoc)

lemma add_warnings_sel [simp]:
  "r_images (add_warnings k st) = r_images st"
  "current_filename (add_warnings k st) = current_filename st"
  "r_i (add_warnings k st) = r_i st"
  "warnings (add_warnings k st) = warnings st + k"
  by (simp_all add: add_warnings_def)

lemma new_image_add_warnings:
  "new_image exists fresh data (add_warnings k st)
     = map_sum id (add_warnings k) (new_image exists fresh data st)"
  by (simp add: new_image_def add_warnings_def Let_def)

lemma write_bb_add_warnings:
  "write_bb stof data (add_warnings k st) = map_sum id (add_warnings k) (write_bb stof data st)"
  by (simp add: write_bb_def add_warnings_def Let_def bind_def split: sum.splits)

lemma load_line_add_warnings:
  "load_line exists stof fresh l (add_warnings k st)
     = map_sum id (add_warnings k) (load_line exists stof fresh l st)"
  by (cases "new_image exists fresh (boost_split l) st")
    (simp_all add: load_line_def Let_def new_image_add_warnings write_bb_add_warnings)

lemma loop_add_warnings:
  "loop (load_line exists stof fresh) ls (add_warnings k st)
     = map_sum id (add_warnings k) (loop (load_line exists stof fresh) ls st)"
proof (induction ls arbitrary: st)
  case Nil
  then show ?case by simp
next
  case (Cons l ls)
  show ?case
    by (cases "load_line exists stof fresh l st") (simp_all add: load_line_add_warnings Cons.IH)
qed

text \<open>A line of the current file name is dropped when the entry is full.\<close>

lemma load_line_full:
  assumes "line_of f l" "current_filename st = f" "MAX_NUM_BBS_PER_IMAGE \<le> r_i st"
  shows "load_line exists stof fresh l st = Inr (add_warnings 1 st)"
  using assms
  by (simp add: load_line_def line_of_def new_image_def write_bb_def add_warnings_def Let_def)

lemma loop_full:
  assumes "\<forall>l \<in> set extra. line_of f l" "current_filename st = f"
    "MAX_NUM_BBS_PER_IMAGE \<le> r_i st"
  shows "loop (load_line exists stof fresh) extra st = Inr (add_warnings (length extra) st)"
  using assms
proof (induction extra arbitrary: st)
  case Nil
  then show ?case by simp
next
  case (Cons l extra)
  have "load_line exists stof fresh l st = Inr (add_warnings 1 st)"
    using Cons.prems by (intro load_line_full) simp_all
  moreover have "loop (load_line exists stof fresh) extra (add_warnings 1 st)
      = Inr (add_warnings (length extra) (add_warnings 1 st))"
    using Cons.prems by (intro Cons.IH) simp_all
  ultimately show ?case by (simp add: add_warnings_add)
qed

text \<open>After a line of file name \<open>f\<close> the current file name is \<open>f\<close>.\<close>

lemma load_line_same:
  assumes "line_of f l" "load_line exists stof fresh l st = Inr st'"
  shows "current_filename st' = f"
    and "current_filename st = f \<Longrightarrow> min (r_i st + 1) MAX_NUM_BBS_PER_IMAGE \<le> r_i st'"
    and "1 \<le> r_i st' \<or> MAX_NUM_BBS_PER_IMAGE = 0"
  using assms
  by (auto simp: load_line_def line_of_def new_image_def write_bb_def Let_def bind_Inr_iff
      split: if_splits)

lemma loop_run:
  assumes "\<forall>l \<in> set run. line_of f l" "run \<noteq> []"
    "loop (load_line exists stof fresh) run st = Inr st'"
  shows "current_filename st' = f \<and> min (length run) MAX_NUM_BBS_PER_IMAGE \<le> r_i st'"
  using assms
proof (induction run arbitrary: st' rule: rev_induct)
  case Nil
  then show ?case by simp
next
  case (snoc l run)
  from snoc.prems(3) obtain st1 where
    r: "loop (load_line exists stof fresh) run st = Inr st1"
    and l: "load_line exists stof fresh l st1 = Inr st'"
    by (auto simp: loop_append bind_Inr_iff)
  from snoc.prems(1) have lf: "line_of f l" by simp
  note s = load_line_same [OF lf l]
  show ?case
  proof (cases "run = []")
    case True
    with s(1,3) show ?thesis by (auto simp: MAX_NUM_BBS_PER_IMAGE_def)
  next
    case False
    with snoc.IH [OF _ _ r] snoc.prems(1)
    have "current_filename st1 = f" "min (length run) MAX_NUM_BBS_PER_IMAGE \<le> r_i st1"
      by simp_all
    with s(1) s(2) show ?thesis by auto
  qed
qed

lemma load_full_entry:
  "\<not> isl (loadBBTXTFile (\<lambda>name. True) decimal_stof zero_blob (Some ([] @ full_entry @ next_entry)))"
  by code_simp

lemma new_image_confidence:
  "new_image exists fresh (data[2 := c]) st = new_image exists fresh data st"
  by (simp add: new_image_def)

lemma write_bb_confidence:
  "write_bb stof (data[2 := c]) = write_bb stof data"
  by (rule ext) (simp add: write_bb_def)

lemma load_line_confidence:
  assumes "boost_split l' = (boost_split l)[2 := c]"
  shows "load_line exists stof fresh l' st = load_line exists stof fresh l st"
  by (simp add: load_line_def Let_def assms new_image_confidence write_bb_confidence)

lemma loop_confidence:
  assumes "list_all2 (\<lambda>l l'. \<exists>c. boost_split l' = (boost_split l)[2 := c]) ls ls'"
  shows "loop (load_line exists stof fresh) ls' st = loop (load_line exists stof fresh) ls st"
  using assms
proof (induction ls ls' arbitrary: st rule: list_all2_induct)
  case Nil
  then show ?case by simp
next
  case (Cons l ls l' ls')
  then obtain c where "boost_split l' = (boost_split l)[2 := c]" by blast
  from load_line_confidence [OF this] Cons.IH show ?case
    by (cases "load_line exists stof fresh l st") simp_all
qed

lemma new_image_last:
  assumes "new_image exists fresh data st = Inr st1"
    and "length fresh = blob_count" "\<forall>e \<in> set (r_images st). length (snd e) = blob_count"
  shows "r_images st1 \<noteq> [] \<longrightarrow> length (snd (last (r_images st1))) = blob_count"
    and "warnings st1 = warnings st"
  using assms
  by (auto simp: new_image_def Let_def split: if_splits)

lemma write_bb_row:
  assumes "write_bb stof data st1 = Inr st'" "warnings st' = warnings st1"
    and "length (snd (last (r_images st1))) = blob_count"
  shows "r_images st' \<noteq> [] \<and> r_i st' = r_i st1 + 1 \<and>
         fst (last (r_images st')) = fst (last (r_images st1)) \<and>
         map (\<lambda>j. snd (last (r_images st')) ! (offset (r_i st1) + j)) [0..<5]
           = map (\<lambda>s. the (stof s)) [data ! 1, data ! 3, data ! 4, data ! 5, data ! 6]"
proof -
  from assms(1,2) have lt: "r_i st1 < MAX_NUM_BBS_PER_IMAGE"
    by (auto simp: write_bb_def split: if_splits)
  then have len: "offset (r_i st1) + 4 < length (snd (last (r_images st1)))"
    by (simp add: assms(3) blob_count_def offset_def MAX_NUM_BBS_PER_IMAGE_def)
  have u: "[0..<5] = [0, 1, 2, 3, 4::nat]" by (simp add: upt_rec)
  from assms(1) lt len show ?thesis
    unfolding u
    by (auto simp: write_bb_def Let_def bind_Inr_iff update_back_def stof_result_def
        split: if_splits option.splits)
qed

lemma load_line_row:
  assumes "length fresh = blob_count"
    and "\<forall>e \<in> set (r_images st). length (snd e) = blob_count"
    and "load_line exists stof fresh line st = Inr st'"
    and "warnings st' = warnings st"
  shows "r_images st' \<noteq> [] \<and> 0 < r_i st' \<and>
      map (\<lambda>j. snd (last (r_images st')) ! (offset (r_i st' - 1) + j)) [0..<5]
        = map (\<lambda>s. the (stof s))
            [boost_split line ! 1, boost_split line ! 3, boost_split line ! 4,
             boost_split line ! 5, boost_split line ! 6]"
proof -
  from assms(3) obtain st1 where
    n: "new_image exists fresh (boost_split line) st = Inr st1"
    and w: "write_bb stof (boost_split line) st1 = Inr st'"
    by (auto simp: load_line_def Let_def bind_Inr_iff split: if_splits)
  note l = new_image_last [OF n assms(1,2)]
  from w assms(4) l(2) have ne: "r_images st1 \<noteq> []"
    by (auto simp: write_bb_def split: if_splits)
  with l(1) have len: "length (snd (last (r_images st1))) = blob_count" by simp
  from assms(4) l(2) have "warnings st' = warnings st1" by simp
  from write_bb_row [OF w this len] show ?thesis by simp
qed

lemma load_one_line:
  "loadBBTXTFile (\<lambda>name. True) decimal_stof zero_blob (Some one_line_file) = Inr one_line_result"
  by code_simp

lemma load_other_confidence:
  "loadBBTXTFile (\<lambda>name. True) decimal_stof zero_blob (Some other_confidence)
     = Inr one_line_result"
  by code_simp

lemma load_line_one_line:
  "load_line (\<lambda>name. True) decimal_stof zero_blob (one_line_file ! 0)
     \<lparr>r_images = [], current_filename = [], r_i = 0, warnings = 0\<rparr> = Inr one_line_result"
  by code_simp

subsection \<open>The selected box and the crop\<close>

lemma trunc_int_of_int [simp]: "trunc_int (real_of_int k) = k"
  by (simp add: trunc_int_def)

lemma select_crop_real_box:
  assumes "draws_in_range gen" "select_crop dt p gen label g = Inr (k, c, g')"
  shows "k < numBBs label"
proof -
  from select_crop_Inr [OF assms(2)] obtain bb_id g1 where
    s: "select_bb gen label g = Inr (bb_id, g1)" and k: "k = nat bb_id"
    by blast
  note b = select_bb_Inr [OF s]
  from b(1) have "(0::int) \<le> int (numBBs label) - 1" by simp
  with assms(1)
  have "fst (gen g (0, int (numBBs label) - 1)) \<le> int (numBBs label) - 1"
    unfolding draws_in_range_def by blast
  with b show ?thesis by (simp add: k)
qed

subsection \<open>The sentinel\<close>

text \<open>The reader never writes to the rows after the boxes of the last entry: they hold the
  content of the new blob until a line with another file name arrives.\<close>

lemma load_line_unfinalized:
  assumes "load_line exists stof fresh l st = Inr st'" "unfinalized fresh st"
  shows "unfinalized fresh st'"
proof -
  from assms(1) obtain st1 where
    n: "new_image exists fresh (boost_split l) st = Inr st1"
    and w: "write_bb stof (boost_split l) st1 = Inr st'"
    by (auto simp: load_line_def Let_def bind_Inr_iff split: if_splits)
  from n assms(2) have u1: "unfinalized fresh st1"
    by (auto simp: new_image_def Let_def unfinalized_def offset_def split: if_splits)
  from w u1 show ?thesis
    by (auto simp: write_bb_def Let_def bind_Inr_iff update_back_def unfinalized_def offset_def
        split: if_splits)
qed

lemma loop_unfinalized:
  assumes "loop (load_line exists stof fresh) ls st = Inr st'" "unfinalized fresh st"
  shows "unfinalized fresh st'"
  using assms
proof (induction ls arbitrary: st)
  case Nil
  then show ?case by simp
next
  case (Cons l ls)
  from Cons.prems(1) obtain st1 where
    l: "load_line exists stof fresh l st = Inr st1"
    and r: "loop (load_line exists stof fresh) ls st1 = Inr st'"
    by (auto simp: bind_Inr_iff)
  from Cons.IH [OF r load_line_unfinalized [OF l Cons.prems(2)]] show ?case .
qed

lemma last_entry_keeps_new_blob:
  assumes "loadBBTXTFile exists stof fresh infile = Inr r" "r_images r \<noteq> []"
  shows "snd (last (r_images r)) ! offset (r_i r) = fresh ! offset (r_i r)"
proof -
  from assms(1) obtain ls where
    "loop (load_line exists stof fresh) ls
       \<lparr>r_images = [], current_filename = [], r_i = 0, warnings = 0\<rparr> = Inr r"
    by (auto simp: loadBBTXTFile_def split: option.splits)
  from loop_unfinalized [OF this] have "unfinalized fresh r"
    by (simp add: unfinalized_def)
  with assms(2) show ?thesis by (simp add: unfinalized_def)
qed

text \<open>A line with a new file name writes the sentinel after the boxes of the entry before.\<close>

lemma new_image_finalizes:
  assumes "new_image exists fresh data st = Inr st1" "current_filename st \<noteq> data ! 0"
    and "r_images st \<noteq> []" "r_i st < MAX_NUM_BBS_PER_IMAGE"
    and "offset (r_i st) < length (snd (last (r_images st)))"
  shows "length (r_images st1) = length (r_images st) + 1 \<and>
         snd (r_images st1 ! (length (r_images st) - 1)) ! offset (r_i st) = - 1"
  using assms
  by (auto simp: new_image_def Let_def update_back_def nth_append split: if_splits)

subsection \<open>The boxes of a full entry\<close>

lemma upt_5: "[0..<5] = [0, 1, 2, 3, 4::nat]"
  by (simp add: upt_rec)

lemma write_bb_stores:
  assumes "parsed stof l" "r_i st < MAX_NUM_BBS_PER_IMAGE" "r_images st \<noteq> []"
    and "length (snd (last (r_images st))) = blob_count"
  shows "\<exists>s'. write_bb stof (boost_split l) st = Inr s' \<and>
           length (r_images s') = length (r_images st) \<and>
           fst (last (r_images s')) = fst (last (r_images st)) \<and>
           length (snd (last (r_images s'))) = blob_count \<and>
           (\<forall>j < r_i st. blob_row (snd (last (r_images s'))) j = blob_row (snd (last (r_images st))) j) \<and>
           blob_row (snd (last (r_images s'))) (r_i st) = stored_row stof l \<and>
           r_i s' = r_i st + 1 \<and> current_filename s' = current_filename st \<and>
           warnings s' = warnings st"
proof -
  from assms(1) obtain v1 v3 v4 v5 v6 where
    v: "stof (boost_split l ! 1) = Some v1" "stof (boost_split l ! 3) = Some v3"
       "stof (boost_split l ! 4) = Some v4" "stof (boost_split l ! 5) = Some v5"
       "stof (boost_split l ! 6) = Some v6"
    by (auto simp: parsed_def)
  have len: "offset (r_i st) + 4 < length (snd (last (r_images st)))"
    using assms(2,4) by (simp add: blob_count_def offset_def MAX_NUM_BBS_PER_IMAGE_def)
  have other: "offset j + i \<noteq> offset (r_i st) + k" if "j < r_i st" "i < 5" "k < 5" for j i k
    using that by (simp add: offset_def)
  have ne: "butlast (r_images st) @ [x] \<noteq> []" for x :: "string \<times> blob"
    by simp
  show ?thesis
    using assms(2,3,4) len v
    by (simp add: write_bb_def stof_result_def Let_def update_back_def blob_row_def stored_row_def
        upt_5 offset_def)
qed

lemma load_line_first:
  assumes "line_of f l" "parsed stof l" "exists f" "current_filename st \<noteq> f"
    and "length fresh = blob_count"
  shows "\<exists>s'. load_line exists stof fresh l st = Inr s' \<and>
           length (r_images s') = length (r_images st) + 1 \<and>
           fst (last (r_images s')) = f \<and>
           length (snd (last (r_images s'))) = blob_count \<and>
           blob_row (snd (last (r_images s'))) 0 = stored_row stof l \<and>
           r_i s' = 1 \<and> current_filename s' = f \<and> warnings s' = warnings st"
proof -
  let ?imgs = "if length (r_images st) > 0 \<and> r_i st < MAX_NUM_BBS_PER_IMAGE
               then update_back (\<lambda>bl. bl[offset (r_i st) := - 1]) (r_images st)
               else r_images st"
  let ?s1 = "st\<lparr>r_images := ?imgs @ [(f, fresh)], r_i := 0, current_filename := f\<rparr>"
  have n: "new_image exists fresh (boost_split l) st = Inr ?s1"
    using assms(1,3,4) by (simp add: new_image_def line_of_def Let_def)
  have li: "length ?imgs = length (r_images st)"
    by (cases "r_images st = []") (simp_all add: update_back_def)
  have lt: "r_i ?s1 < MAX_NUM_BBS_PER_IMAGE"
    by (simp add: MAX_NUM_BBS_PER_IMAGE_def)
  have ne: "r_images ?s1 \<noteq> []" by simp
  have len: "length (snd (last (r_images ?s1))) = blob_count"
    by (simp add: assms(5))
  from write_bb_stores [OF assms(2) lt ne len] obtain s' where
    s': "write_bb stof (boost_split l) ?s1 = Inr s'"
      "length (r_images s') = length (r_images ?s1)"
      "fst (last (r_images s')) = fst (last (r_images ?s1))"
      "length (snd (last (r_images s'))) = blob_count"
      "blob_row (snd (last (r_images s'))) (r_i ?s1) = stored_row stof l"
      "r_i s' = r_i ?s1 + 1" "current_filename s' = current_filename ?s1"
      "warnings s' = warnings ?s1"
    by blast
  have "load_line exists stof fresh l st = Inr s'"
    using assms(1) n s'(1) by (simp add: load_line_def Let_def line_of_def)
  moreover have "length (r_images s') = length (r_images st) + 1"
    using s'(2) li by simp
  moreover have "fst (last (r_images s')) = f" using s'(3) by simp
  moreover have "blob_row (snd (last (r_images s'))) 0 = stored_row stof l" using s'(5) by simp
  moreover have "r_i s' = 1" "current_filename s' = f" "warnings s' = warnings st"
    using s'(6,7,8) by simp_all
  ultimately show ?thesis using s'(4) by blast
qed

lemma load_line_next:
  assumes "line_of f l" "parsed stof l" "current_filename st = f"
    and "r_i st < MAX_NUM_BBS_PER_IMAGE" "r_images st \<noteq> []"
    and "length (snd (last (r_images st))) = blob_count"
  shows "\<exists>s'. load_line exists stof fresh l st = Inr s' \<and>
           length (r_images s') = length (r_images st) \<and>
           fst (last (r_images s')) = fst (last (r_images st)) \<and>
           length (snd (last (r_images s'))) = blob_count \<and>
           (\<forall>j < r_i st. blob_row (snd (last (r_images s'))) j = blob_row (snd (last (r_images st))) j) \<and>
           blob_row (snd (last (r_images s'))) (r_i st) = stored_row stof l \<and>
           r_i s' = r_i st + 1 \<and> current_filename s' = f \<and> warnings s' = warnings st"
proof -
  have n: "new_image exists fresh (boost_split l) st = Inr st"
    using assms(1,3) by (simp add: new_image_def line_of_def)
  from write_bb_stores [OF assms(2,4,5,6)] assms(1,3) n show ?thesis
    by (auto simp: load_line_def Let_def line_of_def)
qed

lemma loop_keep:
  assumes "length fresh = blob_count" "exists f" "current_filename st \<noteq> f"
    and "ls \<noteq> []" "length ls \<le> MAX_NUM_BBS_PER_IMAGE"
    and "\<forall>l \<in> set ls. line_of f l \<and> parsed stof l"
  shows "\<exists>s'. loop (load_line exists stof fresh) ls st = Inr s' \<and>
           length (r_images s') = length (r_images st) + 1 \<and>
           fst (last (r_images s')) = f \<and>
           length (snd (last (r_images s'))) = blob_count \<and>
           (\<forall>j < length ls. blob_row (snd (last (r_images s'))) j = stored_row stof (ls ! j)) \<and>
           r_i s' = length ls \<and> current_filename s' = f \<and> warnings s' = warnings st"
  using assms(4,5,6)
proof (induction ls rule: rev_induct)
  case Nil
  then show ?case by simp
next
  case (snoc l ls)
  from snoc.prems have l: "line_of f l" "parsed stof l" by simp_all
  show ?case
  proof (cases "ls = []")
    case True
    from load_line_first [of f l stof exists st fresh, OF l assms(2,3,1)] show ?thesis
      by (auto simp: True)
  next
    case False
    from snoc.IH [OF False] snoc.prems obtain s1 where
      r: "loop (load_line exists stof fresh) ls st = Inr s1"
      and s1: "length (r_images s1) = length (r_images st) + 1"
        "fst (last (r_images s1)) = f" "length (snd (last (r_images s1))) = blob_count"
        "\<forall>j < length ls. blob_row (snd (last (r_images s1))) j = stored_row stof (ls ! j)"
        "r_i s1 = length ls" "current_filename s1 = f" "warnings s1 = warnings st"
      by auto
    have lt: "r_i s1 < MAX_NUM_BBS_PER_IMAGE" using snoc.prems(2) s1(5) by simp
    have ne: "r_images s1 \<noteq> []" using s1(1) by auto
    from load_line_next [OF l s1(6) lt ne s1(3), of exists fresh] obtain s' where
      s': "load_line exists stof fresh l s1 = Inr s'"
        "length (r_images s') = length (r_images s1)"
        "fst (last (r_images s')) = fst (last (r_images s1))"
        "length (snd (last (r_images s'))) = blob_count"
        "\<forall>j < r_i s1. blob_row (snd (last (r_images s'))) j = blob_row (snd (last (r_images s1))) j"
        "blob_row (snd (last (r_images s'))) (r_i s1) = stored_row stof l"
        "r_i s' = r_i s1 + 1" "current_filename s' = f" "warnings s' = warnings s1"
      by blast
    have rows: "blob_row (snd (last (r_images s'))) j = stored_row stof ((ls @ [l]) ! j)"
      if "j < length (ls @ [l])" for j
    proof (cases "j < length ls")
      case True
      with s'(5) s1(4,5) show ?thesis by (simp add: nth_append)
    next
      case False
      with that have "j = length ls" by simp
      with s'(6) s1(5) show ?thesis by simp
    qed
    from r s' s1 rows show ?thesis
      by (simp add: loop_append)
  qed
qed

lemma load_line_kept:
  assumes "load_line exists stof fresh l st = Inr st'" "kept n e st"
  shows "kept n e st'"
proof -
  from assms(1) obtain s1 where
    n: "new_image exists fresh (boost_split l) st = Inr s1"
    and w: "write_bb stof (boost_split l) s1 = Inr st'"
    by (auto simp: load_line_def Let_def bind_Inr_iff split: if_splits)
  have b: "(butlast xs @ [y]) ! n = xs ! n" if "n < length xs" "length xs \<noteq> n + 1"
    for xs :: "(string \<times> blob) list" and y
  proof -
    from that have "n < length xs - 1" by arith
    then show ?thesis by (simp add: nth_append nth_butlast)
  qed
  from n assms(2) have k1: "kept n e s1"
    by (auto simp: new_image_def Let_def kept_def update_back_def nth_append nth_butlast
        split: if_splits)
  from w k1 show ?thesis
    by (auto simp: write_bb_def Let_def bind_Inr_iff kept_def update_back_def b
        split: if_splits)
qed

lemma loop_kept:
  assumes "loop (load_line exists stof fresh) ls st = Inr st'" "kept n e st"
  shows "kept n e st'"
  using assms
proof (induction ls arbitrary: st)
  case Nil
  then show ?case by simp
next
  case (Cons l ls)
  from Cons.prems(1) obtain s1 where
    l: "load_line exists stof fresh l st = Inr s1"
    and r: "loop (load_line exists stof fresh) ls s1 = Inr st'"
    by (auto simp: bind_Inr_iff)
  from Cons.IH [OF r load_line_kept [OF l Cons.prems(2)]] show ?case .
qed

section \<open>The claims\<close>

text \<open>
  C1 (the code departs from the claim). The claim: in the box branch, when the crop is at
  least as large as the selected box, the drawn crop origin lies in
  \<open>[xmin + w - cropW, xmin] x [ymin + h - cropH, ymin]\<close>, so the selected box lies within
  the crop window. The bounds of the two distributions are converted to \<open>int\<close>, which
  truncates towards zero: for the box \<open>[160.5, 10, 200.5, 50]\<close> (\<open>w = h = 40\<close>, crop of
  \<open>160 x 160\<close>) the lower bound \<open>40.5\<close> of the x range becomes \<open>40\<close>; when the generator
  returns it, the crop window ends at \<open>x = 200\<close>, left of \<open>xmax = 200.5\<close>. All the numbers
  are numbers of \<open>float\<close>, and the run is the same for both types of \<open>Dtype\<close>.
\<close>

theorem crop_origin_outside_range:
  "select_crop Float example_param list_generator fractional_label [0, 0, 0] =
     Inr (0, \<lparr>crop_x = 40, crop_y = - 110, crop_width = 160, crop_height = 160\<rparr>, [])
   \<and> select_crop Double example_param list_generator fractional_label [0, 0, 0] =
     Inr (0, \<lparr>crop_x = 40, crop_y = - 110, crop_width = 160, crop_height = 160\<rparr>, [])
   \<and> fractional_label ! (offset 0 + 3) - fractional_label ! (offset 0 + 1) \<le> real_of_int 160
   \<and> fractional_label ! (offset 0 + 4) - fractional_label ! (offset 0 + 2) \<le> real_of_int 160
   \<and> real_of_int 40 < fractional_label ! (offset 0 + 1)
        + (fractional_label ! (offset 0 + 3) - fractional_label ! (offset 0 + 1)) - real_of_int 160
   \<and> real_of_int (40 + 160) < fractional_label ! (offset 0 + 3)"
proof -
  have f: "select_crop Float example_param list_generator fractional_label [0, 0, 0] =
     Inr (0, \<lparr>crop_x = 40, crop_y = - 110, crop_width = 160, crop_height = 160\<rparr>, [])"
    by code_simp
  have d: "select_crop Double example_param list_generator fractional_label [0, 0, 0] =
     Inr (0, \<lparr>crop_x = 40, crop_y = - 110, crop_width = 160, crop_height = 160\<rparr>, [])"
    by code_simp
  have r: "fractional_label ! (offset 0 + 3) - fractional_label ! (offset 0 + 1) \<le> real_of_int 160
   \<and> fractional_label ! (offset 0 + 4) - fractional_label ! (offset 0 + 2) \<le> real_of_int 160
   \<and> real_of_int 40 < fractional_label ! (offset 0 + 1)
        + (fractional_label ! (offset 0 + 3) - fractional_label ! (offset 0 + 1)) - real_of_int 160
   \<and> real_of_int (40 + 160) < fractional_label ! (offset 0 + 3)"
    by (simp add: fractional_label_def offset_def)
  from f d r show ?thesis by (intro conjI) simp_all
qed

text \<open>
  C3 (amended). In the box branch, with \<open>w = xmax - xmin\<close>, \<open>h = ymax - ymin\<close> of the selected
  box (differences of \<open>Dtype\<close>) and \<open>size = max w h\<close>, the crop dimensions are
  \<open>double(targetW) / referenceSize * size\<close> and \<open>double(targetH) / referenceSize * size\<close>,
  the quotient and the product each rounded to the nearest \<open>double\<close>, truncated towards zero
  to integers; for \<open>referenceSize = 50\<close>, a box with \<open>w = h = 40\<close> and
  \<open>targetW = targetH = 200\<close> gives \<open>cropW = cropH = 160\<close> and a resize scale factor of
  \<open>1.25\<close>. The selected box is one of the boxes before the sentinel when the generator
  draws within the range it is given.
\<close>

theorem crop_size_truncated:
  assumes "select_crop dt p gen label g = Inr (k, c, g')"
  shows "crop_width c =
           trunc_int (fl Double
             (fl Double (real_of_int (width p) / real_of_int (reference_size p))
               * max (fl dt (label ! (offset k + 3) - label ! (offset k + 1)))
                     (fl dt (label ! (offset k + 4) - label ! (offset k + 2)))))
       \<and> crop_height c =
           trunc_int (fl Double
             (fl Double (real_of_int (height p) / real_of_int (reference_size p))
               * max (fl dt (label ! (offset k + 3) - label ! (offset k + 1)))
                     (fl dt (label ! (offset k + 4) - label ! (offset k + 2)))))
       \<and> (reference_size p = 50 \<and> width p = 200 \<and> height p = 200
            \<and> label ! (offset k + 3) - label ! (offset k + 1) = 40
            \<and> label ! (offset k + 4) - label ! (offset k + 2) = 40
          \<longrightarrow> crop_width c = 160 \<and> crop_height c = 160
              \<and> x_scaling p c = 5 / 4 \<and> y_scaling p c = 5 / 4)
       \<and> (draws_in_range gen \<longrightarrow> k < numBBs label)"
proof -
  from select_crop_Inr [OF assms] have cs:
    "crop_size p (fl dt (label ! (offset k + 3) - label ! (offset k + 1)))
                 (fl dt (label ! (offset k + 4) - label ! (offset k + 2)))
       = Inr (crop_width c, crop_height c)"
    by blast
  note eqs = crop_size_Inr(1,2) [OF cs]
  show ?thesis
  proof (intro conjI impI)
    show "crop_width c =
           trunc_int (fl Double
             (fl Double (real_of_int (width p) / real_of_int (reference_size p))
               * max (fl dt (label ! (offset k + 3) - label ! (offset k + 1)))
                     (fl dt (label ! (offset k + 4) - label ! (offset k + 2)))))"
      by (rule eqs(1))
    show "crop_height c =
           trunc_int (fl Double
             (fl Double (real_of_int (height p) / real_of_int (reference_size p))
               * max (fl dt (label ! (offset k + 3) - label ! (offset k + 1)))
                     (fl dt (label ! (offset k + 4) - label ! (offset k + 2)))))"
      by (rule eqs(2))
  next
    assume ex: "reference_size p = 50 \<and> width p = 200 \<and> height p = 200
            \<and> label ! (offset k + 3) - label ! (offset k + 1) = 40
            \<and> label ! (offset k + 4) - label ! (offset k + 2) = 40"
    have "crop_width c = trunc_int (fl Double (fl Double 4 * 40))"
      and "crop_height c = trunc_int (fl Double (fl Double 4 * 40))"
      using eqs ex by (simp_all add: fl_40)
    moreover have "trunc_int (fl Double (fl Double 4 * 40)) = 160"
      by (simp add: fl_eval trunc_int_def)
    ultimately have w: "crop_width c = 160" and h: "crop_height c = 160"
      by simp_all
    have s: "fl Float (fl Float 200 / fl Float 160) = 5 / 4"
      by (simp add: fl_eval)
    show "crop_width c = 160" by (rule w)
    show "crop_height c = 160" by (rule h)
    show "x_scaling p c = 5 / 4" using w ex s by (simp add: x_scaling_def)
    show "y_scaling p c = 5 / 4" using h ex s by (simp add: y_scaling_def)
  next
    assume "draws_in_range gen"
    then show "k < numBBs label" using assms by (rule select_crop_real_box)
  qed
qed

theorem crop_size_truncated_witness:
  "select_crop Float example_param list_generator example_label [0, 0, 0] =
     Inr (0, \<lparr>crop_x = - 110, crop_y = - 110, crop_width = 160, crop_height = 160\<rparr>, [])
   \<and> reference_size example_param = 50 \<and> width example_param = 200
   \<and> height example_param = 200
   \<and> example_label ! (offset 0 + 3) - example_label ! (offset 0 + 1) = 40
   \<and> example_label ! (offset 0 + 4) - example_label ! (offset 0 + 2) = 40
   \<and> x_scaling example_param
        \<lparr>crop_x = - 110, crop_y = - 110, crop_width = 160, crop_height = 160\<rparr> = 5 / 4
   \<and> y_scaling example_param
        \<lparr>crop_x = - 110, crop_y = - 110, crop_width = 160, crop_height = 160\<rparr> = 5 / 4
   \<and> draws_in_range list_generator \<and> 0 < numBBs example_label"
proof -
  have l: "example_label ! (offset 0 + 3) - example_label ! (offset 0 + 1) = 40"
      "example_label ! (offset 0 + 4) - example_label ! (offset 0 + 2) = 40"
    by (simp_all add: example_label_def offset_def)
  have p: "reference_size example_param = 50" "width example_param = 200"
      "height example_param = 200"
    by (simp_all add: example_param_def)
  from crop_size_truncated [OF select_crop_example(1)] l p select_crop_example(1)
    list_generator_in_range
  show ?thesis by simp
qed

text \<open>The example of the claim gives 160 and 1.25, not 200 and 1; a product with a
  fraction is truncated (\<open>4 * 40.125 = 160.5\<close> gives 160); and the rounding of the quotient
  shows in the result: \<open>200 / 97\<close> rounded to a \<open>double\<close>, times 97, is below 200, so the
  crop of a box of size 97 with \<open>referenceSize = 97\<close> has 199 columns.\<close>

theorem crop_size_example_counterexample:
  "select_crop Float example_param list_generator example_label [0, 0, 0] =
     Inr (0, \<lparr>crop_x = - 110, crop_y = - 110, crop_width = 160, crop_height = 160\<rparr>, [])
   \<and> example_label ! (offset 0 + 3) - example_label ! (offset 0 + 1) = 40
   \<and> example_label ! (offset 0 + 4) - example_label ! (offset 0 + 2) = 40
   \<and> crop_width \<lparr>crop_x = - 110, crop_y = - 110, crop_width = 160, crop_height = 160\<rparr> \<noteq> 200
   \<and> x_scaling example_param
        \<lparr>crop_x = - 110, crop_y = - 110, crop_width = 160, crop_height = 160\<rparr> \<noteq> 1
   \<and> crop_size example_param (321 / 8) 40 = Inr (160, 160)
   \<and> real_of_int 160 \<noteq> real_of_int (width example_param)
        / real_of_int (reference_size example_param) * max (321 / 8) 40
   \<and> crop_size \<lparr>height = 200, width = 200, reference_size = 97\<rparr> 97 97 = Inr (199, 199)
   \<and> real_of_int 199 \<noteq> real_of_int 200 / real_of_int 97 * max 97 97"
proof -
  have a: "select_crop Float example_param list_generator example_label [0, 0, 0] =
     Inr (0, \<lparr>crop_x = - 110, crop_y = - 110, crop_width = 160, crop_height = 160\<rparr>, [])"
    by code_simp
  have b: "example_label ! (offset 0 + 3) - example_label ! (offset 0 + 1) = 40
   \<and> example_label ! (offset 0 + 4) - example_label ! (offset 0 + 2) = 40"
    by (simp add: example_label_def offset_def)
  have c: "x_scaling example_param
        \<lparr>crop_x = - 110, crop_y = - 110, crop_width = 160, crop_height = 160\<rparr> \<noteq> 1"
    by (simp add: x_scaling_def example_param_def fl_eval)
  have d: "crop_size example_param (321 / 8) 40 = Inr (160, 160)"
    by code_simp
  have e: "real_of_int 160 \<noteq> real_of_int (width example_param)
        / real_of_int (reference_size example_param) * max (321 / 8) 40"
    by (simp add: example_param_def)
  have f: "crop_size \<lparr>height = 200, width = 200, reference_size = 97\<rparr> 97 97 = Inr (199, 199)"
    by code_simp
  have g: "real_of_int 199 \<noteq> real_of_int 200 / real_of_int 97 * max 97 97"
    by simp
  from a b c d e f g show ?thesis by (intro conjI) simp_all
qed

text \<open>
  C4. In the box branch every box before the sentinel, not only the selected one, has its
  coordinates updated by subtracting \<open>(crop_x, crop_y)\<close> and then multiplying the x
  coordinates by \<open>width / crop_width\<close> and the y coordinates by \<open>height / crop_height\<close>;
  the labels, the number of boxes and the rest of the blob are unchanged: nothing is clamped
  and no box is removed. The operations are those of the program: the two factors are
  quotients of \<open>float\<close>, and each difference and each product is rounded to \<open>Dtype\<close>. The
  crop has a positive width and height, so the quotients are defined.
\<close>

theorem every_real_box_remapped:
  assumes "length transformed_label = blob_count"
    and "transformed_label ! 0 \<noteq> - 1"
    and "transformImage dt p gen interp cv_img transformed_image transformed_label g
           = Inr (d, label', g')"
  shows "\<exists>k c. select_crop dt p gen transformed_label g = Inr (k, c, g') \<and>
           0 < crop_width c \<and> 0 < crop_height c \<and>
           x_scaling p c =
             fl Float (fl Float (real_of_int (width p)) / fl Float (real_of_int (crop_width c))) \<and>
           y_scaling p c =
             fl Float (fl Float (real_of_int (height p)) / fl Float (real_of_int (crop_height c))) \<and>
           length label' = blob_count \<and> numBBs label' = numBBs transformed_label \<and>
           (\<forall>b < numBBs transformed_label.
              label' ! offset b = transformed_label ! offset b \<and>
              label' ! (offset b + 1) =
                fl dt (fl dt (transformed_label ! (offset b + 1) - fl dt (real_of_int (crop_x c)))
                  * x_scaling p c) \<and>
              label' ! (offset b + 2) =
                fl dt (fl dt (transformed_label ! (offset b + 2) - fl dt (real_of_int (crop_y c)))
                  * y_scaling p c) \<and>
              label' ! (offset b + 3) =
                fl dt (fl dt (transformed_label ! (offset b + 3) - fl dt (real_of_int (crop_x c)))
                  * x_scaling p c) \<and>
              label' ! (offset b + 4) =
                fl dt (fl dt (transformed_label ! (offset b + 4) - fl dt (real_of_int (crop_y c)))
                  * y_scaling p c)) \<and>
           (\<forall>n \<ge> offset (numBBs transformed_label). label' ! n = transformed_label ! n)"
proof -
  from transformImage_Inr [OF assms(3)] obtain m where
    ci: "cropped_image dt p gen interp cv_img transformed_label g = Inr (m, label', g')"
    by blast
  from cropped_image_box_Inr [OF assms(2) ci] obtain k c b padded cropped where
    sc: "select_crop dt p gen transformed_label g = Inr (k, c, g')"
    and cp: "crop_padded padded b c = Inr cropped"
    and rs: "cv_resize interp cropped (width p) (height p) = Inr m"
    and l: "update_bbs dt p c transformed_label = Inr label'"
    by blast
  note pos = crop_positive [OF cp rs]
  note nth = update_bbs_nth(2) [OF assms(1) l]
  have row: "offset b + j < offset (numBBs transformed_label)"
    if "b < numBBs transformed_label" "j < 5" for b j
    using that by (simp add: offset_def)
  have m: "(offset b + j) mod 5 = j mod 5" for b j
    by (simp add: offset_def)
  have boxes: "label' ! offset b = transformed_label ! offset b \<and>
              label' ! (offset b + 1) =
                fl dt (fl dt (transformed_label ! (offset b + 1) - fl dt (real_of_int (crop_x c)))
                  * x_scaling p c) \<and>
              label' ! (offset b + 2) =
                fl dt (fl dt (transformed_label ! (offset b + 2) - fl dt (real_of_int (crop_y c)))
                  * y_scaling p c) \<and>
              label' ! (offset b + 3) =
                fl dt (fl dt (transformed_label ! (offset b + 3) - fl dt (real_of_int (crop_x c)))
                  * x_scaling p c) \<and>
              label' ! (offset b + 4) =
                fl dt (fl dt (transformed_label ! (offset b + 4) - fl dt (real_of_int (crop_y c)))
                  * y_scaling p c)"
    if b: "b < numBBs transformed_label" for b
    using row [OF b, of 0] row [OF b, of 1] row [OF b, of 2] row [OF b, of 3] row [OF b, of 4]
      m [of b 0] m [of b 1] m [of b 2] m [of b 3] m [of b 4]
    by (simp add: nth remap_def shifted_def scaled_def)
  have rest: "label' ! n = transformed_label ! n" if "n \<ge> offset (numBBs transformed_label)" for n
    using that by (simp add: nth)
  from sc pos update_bbs_nth(1) [OF assms(1) l] numBBs_update_bbs [OF assms(1) l]
    boxes rest x_scaling_def [of p c] y_scaling_def [of p c]
  show ?thesis by blast
qed

theorem every_real_box_remapped_witness:
  "length tiny_label = blob_count \<and> tiny_label ! 0 \<noteq> - 1 \<and>
   transformImage Float tiny_param list_generator nearest tiny_img (replicate 48 0) tiny_label
     [0, 1, 0] = Inr (tiny_normalized, tiny_remapped, []) \<and>
   numBBs tiny_label = 2 \<and> numBBs tiny_remapped = 2 \<and>
   tiny_remapped ! (offset 1 + 3) = fl Float (fl Float (tiny_label ! (offset 1 + 3) - fl Float 1)
     * fl Float (fl Float 4 / fl Float 2)) \<and>
   tiny_remapped ! (offset 1 + 3) = (tiny_label ! (offset 1 + 3) - 1) * (4 / 2) \<and>
   real_of_int (width tiny_param) < tiny_remapped ! (offset 1 + 3)"
proof -
  have len: "length tiny_label = blob_count"
    by (simp add: tiny_label_def blob_count_def MAX_NUM_BBS_PER_IMAGE_def)
  have first: "tiny_label ! 0 \<noteq> - 1"
    by (simp add: tiny_label_def)
  have n: "numBBs tiny_label = 2"
    by (simp add: tiny_label_def run_defs)
  from every_real_box_remapped [OF len first transformImage_tiny] obtain k c where
    sc: "select_crop Float tiny_param list_generator tiny_label [0, 1, 0] = Inr (k, c, [])"
    and nb: "numBBs tiny_remapped = numBBs tiny_label"
    and boxes: "\<forall>b < numBBs tiny_label.
              tiny_remapped ! (offset b + 3) =
                fl Float (fl Float (tiny_label ! (offset b + 3) - fl Float (real_of_int (crop_x c)))
                  * x_scaling tiny_param c)"
    by blast
  from sc select_crop_tiny
  have c: "c = \<lparr>crop_x = 1, crop_y = 0, crop_width = 2, crop_height = 2\<rparr>" by simp
  from boxes n have "tiny_remapped ! (offset 1 + 3) =
                fl Float (fl Float (tiny_label ! (offset 1 + 3) - fl Float (real_of_int (crop_x c)))
                  * x_scaling tiny_param c)"
    by simp
  then have r: "tiny_remapped ! (offset 1 + 3) =
      fl Float (fl Float (tiny_label ! (offset 1 + 3) - fl Float 1)
        * fl Float (fl Float 4 / fl Float 2))"
    by (simp add: c tiny_param_def x_scaling_def)
  have e: "fl Float (fl Float (tiny_label ! (offset 1 + 3) - fl Float 1)
        * fl Float (fl Float 4 / fl Float 2)) = (tiny_label ! (offset 1 + 3) - 1) * (4 / 2)"
    by (simp add: tiny_label_def offset_def fl_eval)
  have "real_of_int (width tiny_param) < tiny_remapped ! (offset 1 + 3)"
    unfolding r e by (simp add: tiny_label_def tiny_param_def offset_def)
  with len first transformImage_tiny n nb r e show ?thesis by simp
qed

text \<open>
  C5. In the box branch the image is padded on the left and at the top by \<open>- crop_x\<close> and
  \<open>- crop_y\<close> when these are negative, on the right and at the bottom by the amount the crop
  window extends beyond the width and the height of the image, every pixel of the padded
  image being the pixel of the source at the nearest coordinates inside it (edge
  replication); the crop rectangle at \<open>(crop_x + border_left, crop_y + border_top)\<close> of size
  \<open>(crop_width, crop_height)\<close> lies within the padded image, so the crop succeeds.
\<close>

theorem crop_inside_padded_image:
  assumes "borders cv_img c = Inr b" and "\<not> empty_mat cv_img"
  shows "border_left b = (if crop_x c < 0 then - crop_x c else 0) \<and>
         border_top b = (if crop_y c < 0 then - crop_y c else 0) \<and>
         border_right b = (if crop_x c + crop_width c > int (cols cv_img)
                           then crop_x c + crop_width c - int (cols cv_img) else 0) \<and>
         border_bottom b = (if crop_y c + crop_height c > int (rows cv_img)
                            then crop_y c + crop_height c - int (rows cv_img) else 0) \<and>
         (\<exists>padded. pad cv_img b = Inr padded \<and>
            int (rows padded) = int (rows cv_img) + border_top b + border_bottom b \<and>
            int (cols padded) = int (cols cv_img) + border_left b + border_right b \<and>
            (wf_mat cv_img \<longrightarrow>
               (\<forall>i < rows padded. \<forall>j < cols padded.
                  pixel padded i j =
                    pixel cv_img (borderInterpolate (int i - border_top b) (rows cv_img))
                                 (borderInterpolate (int j - border_left b) (cols cv_img)))) \<and>
            0 \<le> crop_x c + border_left b \<and>
            crop_x c + border_left b + crop_width c \<le> int (cols padded) \<and>
            0 \<le> crop_y c + border_top b \<and>
            crop_y c + border_top b + crop_height c \<le> int (rows padded) \<and>
            (0 \<le> crop_width c \<and> 0 \<le> crop_height c \<longrightarrow>
               (\<exists>cropped. crop_padded padded b c = Inr cropped \<and>
                  rows cropped = nat (crop_height c) \<and> cols cropped = nat (crop_width c))))"
proof -
  note bs = borders_Inr [OF assms(1)]
  have nonneg: "0 \<le> border_top b" "0 \<le> border_bottom b" "0 \<le> border_left b"
      "0 \<le> border_right b"
    by (simp_all add: bs)
  from copyMakeBorder_props [OF assms(2) nonneg] obtain padded where
    p: "pad cv_img b = Inr padded"
    and r: "rows padded = rows cv_img + nat (border_top b) + nat (border_bottom b)"
    and c: "cols padded = cols cv_img + nat (border_left b) + nat (border_right b)"
    and px: "wf_mat cv_img \<longrightarrow>
               (\<forall>i < rows padded. \<forall>j < cols padded.
                  pixel padded i j =
                    pixel cv_img (borderInterpolate (int i - border_top b) (rows cv_img))
                                 (borderInterpolate (int j - border_left b) (cols cv_img)))"
    unfolding pad_def by blast
  have r': "int (rows padded) = int (rows cv_img) + border_top b + border_bottom b"
    and c': "int (cols padded) = int (cols cv_img) + border_left b + border_right b"
    using nonneg by (simp_all add: r c)
  have x: "0 \<le> crop_x c + border_left b"
      "crop_x c + border_left b + crop_width c \<le> int (cols padded)"
    unfolding c' by (simp_all add: bs)
  have y: "0 \<le> crop_y c + border_top b"
      "crop_y c + border_top b + crop_height c \<le> int (rows padded)"
    unfolding r' by (simp_all add: bs)
  have roi: "\<exists>cropped. crop_padded padded b c = Inr cropped \<and>
                  rows cropped = nat (crop_height c) \<and> cols cropped = nat (crop_width c)"
    if "0 \<le> crop_width c \<and> 0 \<le> crop_height c"
    using that x y by (simp add: crop_padded_def mat_roi_def rect_inside_def)
  from p r' c' px x y roi bs show ?thesis by blast
qed

theorem crop_inside_padded_image_witness:
  "borders tiny_img tiny_crop = Inr tiny_border \<and> \<not> empty_mat tiny_img \<and> wf_mat tiny_img \<and>
   pad tiny_img tiny_border = Inr tiny_padded \<and>
   border_right tiny_border = 1 \<and> cols tiny_padded = 3 \<and>
   pixel tiny_padded 0 2 = pixel tiny_img 0 1 \<and>
   rect_inside tiny_padded (crop_x tiny_crop + border_left tiny_border)
     (crop_y tiny_crop + border_top tiny_border) (crop_width tiny_crop) (crop_height tiny_crop)"
proof -
  have ne: "\<not> empty_mat tiny_img" by (simp add: empty_mat_def tiny_img_def)
  have wf: "wf_mat tiny_img" by (simp add: wf_mat_def tiny_img_def)
  have dims: "0 \<le> crop_width tiny_crop \<and> 0 \<le> crop_height tiny_crop"
    by (simp add: tiny_crop_def)
  from crop_inside_padded_image [OF borders_tiny ne] pad_tiny wf
  have px: "\<forall>i < rows tiny_padded. \<forall>j < cols tiny_padded.
                  pixel tiny_padded i j =
                    pixel tiny_img (borderInterpolate (int i - border_top tiny_border) (rows tiny_img))
                                 (borderInterpolate (int j - border_left tiny_border) (cols tiny_img))"
    and inside: "0 \<le> crop_x tiny_crop + border_left tiny_border"
      "crop_x tiny_crop + border_left tiny_border + crop_width tiny_crop \<le> int (cols tiny_padded)"
      "0 \<le> crop_y tiny_crop + border_top tiny_border"
      "crop_y tiny_crop + border_top tiny_border + crop_height tiny_crop \<le> int (rows tiny_padded)"
    by auto
  from px have "pixel tiny_padded 0 2 = pixel tiny_img 0 1"
    by (simp add: tiny_padded_def tiny_border_def tiny_img_def borderInterpolate_def)
  moreover have "rect_inside tiny_padded (crop_x tiny_crop + border_left tiny_border)
     (crop_y tiny_crop + border_top tiny_border) (crop_width tiny_crop) (crop_height tiny_crop)"
    using inside dims by (simp add: rect_inside_def)
  moreover have "border_right tiny_border = 1" "cols tiny_padded = 3"
    by (simp_all add: tiny_border_def tiny_padded_def)
  ultimately show ?thesis using borders_tiny ne wf pad_tiny by simp
qed

text \<open>
  C6. In both branches the image blob is filled from the cropped and resized image alone:
  the entry of channel \<open>c\<close>, row \<open>i\<close>, column \<open>j\<close> (channel-major) is
  \<open>(v - 128) / 128\<close> for the byte \<open>v\<close> of channel \<open>c\<close> of pixel \<open>(i, j)\<close>. So 0 gives \<open>- 1\<close>,
  128 gives 0 and 255 gives \<open>127 / 128\<close>, which is 0.9922 up to \<open>0.0001\<close>.
\<close>

theorem normalization_affine:
  assumes "length transformed_image = 3 * nat (height p) * nat (width p)"
    and "transformImage dt p gen interp cv_img transformed_image transformed_label g
           = Inr (d, label', g')"
  shows "\<exists>m. cropped_image dt p gen interp cv_img transformed_label g = Inr (m, label', g') \<and>
           length d = 3 * nat (height p) * nat (width p) \<and>
           (\<forall>c < 3. \<forall>i < nat (height p). \<forall>j < nat (width p).
              d ! ((c * nat (height p) + i) * nat (width p) + j)
                = (real (unat (ptr m ! i ! (3 * j + c))) - 128) / 128) \<and>
           normalized 0 = - 1 \<and> normalized 128 = 0 \<and> normalized 255 = 127 / 128 \<and>
           \<bar>normalized 255 - 9922 / 10000\<bar> < 1 / 10000"
proof -
  from transformImage_Inr [OF assms(2)] obtain m where
    ci: "cropped_image dt p gen interp cv_img transformed_label g = Inr (m, label', g')"
    and d: "d = normalize_image p m transformed_image"
    by blast
  have len: "length d = 3 * nat (height p) * nat (width p)"
    unfolding d using normalize_image_writes [OF assms(1), of m] by blast
  have px: "d ! ((c * nat (height p) + i) * nat (width p) + j)
                = (real (unat (ptr m ! i ! (3 * j + c))) - 128) / 128"
    if "c < 3" "i < nat (height p)" "j < nat (width p)" for c i j
    unfolding d using normalize_image_nth [OF assms(1) that, of m]
    by (simp add: normalized_def)
  have v: "normalized 0 = - 1" "normalized 128 = 0" "normalized 255 = 127 / 128"
    "\<bar>normalized 255 - 9922 / 10000\<bar> < 1 / 10000"
    by (simp_all add: normalized_def)
  from ci len px v show ?thesis by blast
qed

theorem normalization_affine_witness:
  "length (replicate 48 (0::real)) = 3 * nat (height tiny_param) * nat (width tiny_param) \<and>
   transformImage Float tiny_param list_generator nearest tiny_img (replicate 48 0) tiny_label [0, 1, 0]
     = Inr (tiny_normalized, tiny_remapped, []) \<and>
   transformImage Float tiny_param list_generator nearest tiny_img (replicate 48 0) no_box_label [0, 1, 0]
     = Inr (tiny_resized_normalized, no_box_label, [0, 1, 0]) \<and>
   tiny_normalized ! ((2 * 4 + 3) * 4 + 1) = (real (unat (ptr tiny_cropped ! 3 ! (3 * 1 + 2))) - 128) / 128 \<and>
   tiny_resized_normalized ! ((0 * 4 + 0) * 4 + 0) = (real (unat (0 :: uchar)) - 128) / 128 \<and>
   tiny_resized_normalized ! ((1 * 4 + 0) * 4 + 0) = (real (unat (128 :: uchar)) - 128) / 128 \<and>
   tiny_resized_normalized ! ((2 * 4 + 0) * 4 + 0) = (real (unat (255 :: uchar)) - 128) / 128"
proof -
  have len: "length (replicate 48 (0::real)) = 3 * nat (height tiny_param) * nat (width tiny_param)"
    by (simp add: tiny_param_def)
  have hw: "nat (height tiny_param) = 4" "nat (width tiny_param) = 4"
    by (simp_all add: tiny_param_def)
  from normalization_affine [OF len transformImage_tiny] cropped_image_tiny
  have box: "\<forall>c < 3. \<forall>i < 4. \<forall>j < 4.
      tiny_normalized ! ((c * 4 + i) * 4 + j) = (real (unat (ptr tiny_cropped ! i ! (3 * j + c))) - 128) / 128"
    unfolding hw by auto
  from normalization_affine [OF len transformImage_no_box] cropped_image_no_box
  have no_box: "\<forall>c < 3. \<forall>i < 4. \<forall>j < 4.
      tiny_resized_normalized ! ((c * 4 + i) * 4 + j) = (real (unat (ptr tiny_resized ! i ! (3 * j + c))) - 128) / 128"
    unfolding hw by auto
  have b: "tiny_normalized ! ((2 * 4 + 3) * 4 + 1) = (real (unat (ptr tiny_cropped ! 3 ! (3 * 1 + 2))) - 128) / 128"
    using box [rule_format, of 2 3 1] by simp
  have n0: "tiny_resized_normalized ! ((0 * 4 + 0) * 4 + 0) = (real (unat (0 :: uchar)) - 128) / 128"
    using no_box [rule_format, of 0 0 0] by (simp add: tiny_resized_def)
  have n1: "tiny_resized_normalized ! ((1 * 4 + 0) * 4 + 0) = (real (unat (128 :: uchar)) - 128) / 128"
    using no_box [rule_format, of 1 0 0] by (simp add: tiny_resized_def)
  have n2: "tiny_resized_normalized ! ((2 * 4 + 0) * 4 + 0) = (real (unat (255 :: uchar)) - 128) / 128"
    using no_box [rule_format, of 2 0 0] by (simp add: tiny_resized_def)
  from len transformImage_tiny transformImage_no_box b n0 n1 n2 show ?thesis by blast
qed



text \<open>
  C8. With a generator whose draws lie in the range of their distribution, \_shuffleImages
  permutes the images: the multiset of the entries and their number are unchanged. The new
  order and the new state of the generator are determined by the images and the state of
  the generator alone.
\<close>

theorem shuffle_is_permutation:
  assumes "draws_in_range gen"
  shows "mset (images (shuffleImages gen st)) = mset (images st) \<and>
         length (images (shuffleImages gen st)) = length (images st) \<and>
         i_global (shuffleImages gen st) = i_global st \<and>
         (\<forall>st'. images st' = images st \<and> rng st' = rng st \<longrightarrow>
            images (shuffleImages gen st') = images (shuffleImages gen st) \<and>
            rng (shuffleImages gen st') = rng (shuffleImages gen st))"
  using assms
  by (simp add: shuffleImages_simps mset_rng_shuffle length_rng_shuffle)

theorem shuffle_is_permutation_witness:
  "draws_in_range list_generator \<and>
   images (shuffleImages list_generator abc_layer) = [(''c'', []), (''a'', []), (''b'', [])] \<and>
   mset [(''c'', []), (''a'', []), (''b'', []) :: string \<times> blob] = mset (images abc_layer) \<and>
   images (abc_layer\<lparr>i_global := 2\<rparr>) = images abc_layer \<and>
   rng (abc_layer\<lparr>i_global := 2\<rparr>) = rng abc_layer \<and>
   images (shuffleImages list_generator (abc_layer\<lparr>i_global := 2\<rparr>))
     = [(''c'', []), (''a'', []), (''b'', [])]"
proof -
  have same: "images (abc_layer\<lparr>i_global := 2\<rparr>) = images abc_layer \<and>
      rng (abc_layer\<lparr>i_global := 2\<rparr>) = rng abc_layer"
    by simp
  note t = shuffle_is_permutation [OF list_generator_in_range, of abc_layer]
  from t have "mset (images (shuffleImages list_generator abc_layer)) = mset (images abc_layer)"
    by blast
  moreover from t same
  have "images (shuffleImages list_generator (abc_layer\<lparr>i_global := 2\<rparr>))
      = images (shuffleImages list_generator abc_layer)"
    by blast
  ultimately show ?thesis
    using list_generator_in_range same by (simp add: shuffle_abc)
qed

text \<open>
  C2 (the code departs from the claim). The claim: when an entry with fewer than 20 boxes is
  finalized, by a new file name or by the end of the file, the label of the row after its
  last box is set to \<open>- 1\<close>. The code writes the sentinel only when a line with a new file
  name follows (lines 194 to 201); nothing follows the loop, so the last entry of the file
  keeps the content of the new blob after its boxes. For the file of the single line
  \<open>img1.jpg 2 1.0 10 10 50 50\<close> and a blob of zeros, the label of row 1 is 0, and numBBs
  counts 20 boxes.
\<close>

theorem last_entry_not_finalized:
  "loadBBTXTFile (\<lambda>name. True) decimal_stof zero_blob (Some one_line_file) = Inr one_line_result
   \<and> r_i one_line_result = 1 \<and> r_i one_line_result < MAX_NUM_BBS_PER_IMAGE
   \<and> snd (last (r_images one_line_result)) ! offset (r_i one_line_result) = 0
   \<and> snd (last (r_images one_line_result)) ! offset (r_i one_line_result) \<noteq> - 1
   \<and> numBBs (snd (last (r_images one_line_result))) = 20"
  by code_simp

text \<open>
  C9. Where at least 20 lines of one file name are followed by further lines of that file
  name (with 7 fields), each further line is dropped with one warning: reading the file
  fails exactly when reading it without the further lines does, with the same error, and
  otherwise gives the same entries, with one more warning for each dropped line. Where
  moreover the lines before have been read, the first of the 20 lines starts a new entry
  (its file exists) and the numbers of the first 20 lines can be parsed, reading up to the
  last of the further lines does not fail: the entry holds the 20 rows of the first 20
  lines and nothing else, every line after them has given one warning, and the entry is the
  same in the result of the whole file, whatever follows.
\<close>

theorem extra_boxes_dropped:
  assumes "\<forall>l \<in> set keep. length (boost_split l) = 7 \<and> boost_split l ! 0 = f"
    and "MAX_NUM_BBS_PER_IMAGE \<le> length keep"
    and "\<forall>l \<in> set extra. length (boost_split l) = 7 \<and> boost_split l ! 0 = f"
  shows "loadBBTXTFile exists stof fresh (Some (pre @ keep @ extra @ post))
           = map_sum id (\<lambda>r. r\<lparr>warnings := warnings r + length extra\<rparr>)
               (loadBBTXTFile exists stof fresh (Some (pre @ keep @ post)))
       \<and> (length fresh = blob_count \<and> exists f \<and>
          loop (load_line exists stof fresh) pre
            \<lparr>r_images = [], current_filename = [], r_i = 0, warnings = 0\<rparr> = Inr s1 \<and>
          current_filename s1 \<noteq> f \<and>
          (\<forall>l \<in> set (take MAX_NUM_BBS_PER_IMAGE keep). parsed stof l)
          \<longrightarrow> (\<exists>s2. loop (load_line exists stof fresh) (pre @ keep @ extra)
                      \<lparr>r_images = [], current_filename = [], r_i = 0, warnings = 0\<rparr> = Inr s2 \<and>
                 length (r_images s2) = length (r_images s1) + 1 \<and>
                 fst (last (r_images s2)) = f \<and>
                 length (snd (last (r_images s2))) = MAX_NUM_BBS_PER_IMAGE * 5 \<and>
                 (\<forall>j < MAX_NUM_BBS_PER_IMAGE.
                    blob_row (snd (last (r_images s2))) j = stored_row stof (keep ! j)) \<and>
                 r_i s2 = MAX_NUM_BBS_PER_IMAGE \<and> current_filename s2 = f \<and>
                 warnings s2
                   = warnings s1 + (length keep - MAX_NUM_BBS_PER_IMAGE) + length extra \<and>
                 (\<forall>r. loadBBTXTFile exists stof fresh (Some (pre @ keep @ extra @ post)) = Inr r
                    \<longrightarrow> length (r_images s1) < length (r_images r) \<and>
                        r_images r ! length (r_images s1) = last (r_images s2))))"
proof (intro conjI impI)
  let ?body = "load_line exists stof fresh"
  let ?st0 = "\<lparr>r_images = [], current_filename = [], r_i = 0, warnings = 0\<rparr>"
  have ne: "keep \<noteq> []" using assms(2) by (auto simp: MAX_NUM_BBS_PER_IMAGE_def)
  have k: "\<forall>l \<in> set keep. line_of f l" and e: "\<forall>l \<in> set extra. line_of f l"
    using assms(1,3) by (simp_all add: line_of_def)
  have aw: "add_warnings (length extra) = (\<lambda>r. r\<lparr>warnings := warnings r + length extra\<rparr>)"
    by (rule ext) (simp add: add_warnings_def)
  have tail: "bind (loop ?body extra s2) (loop ?body post)
      = map_sum id (add_warnings (length extra)) (loop ?body post s2)"
    if keep: "loop ?body keep s1 = Inr s2" for s1 s2
  proof -
    from loop_run [OF k ne keep] assms(2)
    have full: "current_filename s2 = f" "MAX_NUM_BBS_PER_IMAGE \<le> r_i s2"
      by simp_all
    show ?thesis
      by (simp add: loop_full [OF e full] loop_add_warnings)
  qed
  have "bind (loop ?body keep s1) (\<lambda>s2. bind (loop ?body extra s2) (loop ?body post))
      = map_sum id (add_warnings (length extra)) (bind (loop ?body keep s1) (loop ?body post))"
    for s1
    by (cases "loop ?body keep s1") (simp_all add: tail)
  then have "bind (loop ?body pre ?st0)
        (\<lambda>s1. bind (loop ?body keep s1) (\<lambda>s2. bind (loop ?body extra s2) (loop ?body post)))
      = map_sum id (add_warnings (length extra))
          (bind (loop ?body pre ?st0) (\<lambda>s1. bind (loop ?body keep s1) (loop ?body post)))"
    by (cases "loop ?body pre ?st0") simp_all
  moreover have app: "loop ?body (xs @ ys) = (\<lambda>s. bind (loop ?body xs s) (loop ?body ys))"
    for xs ys
    by (rule ext) (rule loop_append)
  ultimately show "loadBBTXTFile exists stof fresh (Some (pre @ keep @ extra @ post))
           = map_sum id (\<lambda>r. r\<lparr>warnings := warnings r + length extra\<rparr>)
               (loadBBTXTFile exists stof fresh (Some (pre @ keep @ post)))"
    unfolding aw by (simp add: loadBBTXTFile_def)
  assume h: "length fresh = blob_count \<and> exists f \<and> loop ?body pre ?st0 = Inr s1 \<and>
          current_filename s1 \<noteq> f \<and>
          (\<forall>l \<in> set (take MAX_NUM_BBS_PER_IMAGE keep). parsed stof l)"
  let ?first = "take MAX_NUM_BBS_PER_IMAGE keep"
  let ?more = "drop MAX_NUM_BBS_PER_IMAGE keep @ extra"
  have lf: "length ?first = MAX_NUM_BBS_PER_IMAGE" using assms(2) by simp
  have fne: "?first \<noteq> []" using lf by (auto simp: MAX_NUM_BBS_PER_IMAGE_def)
  have fl: "\<forall>l \<in> set ?first. line_of f l \<and> parsed stof l"
    using k h by (auto dest: in_set_takeD)
  have ml: "\<forall>l \<in> set ?more. line_of f l"
    using k e by (auto dest: in_set_dropD)
  from h have fresh: "length fresh = blob_count" and ex: "exists f"
    and new: "current_filename s1 \<noteq> f" by simp_all
  from loop_keep [of fresh exists f s1 ?first stof, OF fresh ex new fne _ fl] lf
  obtain sk where
    sk: "loop ?body ?first s1 = Inr sk"
      "length (r_images sk) = length (r_images s1) + 1"
      "fst (last (r_images sk)) = f" "length (snd (last (r_images sk))) = blob_count"
      "\<forall>j < MAX_NUM_BBS_PER_IMAGE. blob_row (snd (last (r_images sk))) j = stored_row stof (?first ! j)"
      "r_i sk = MAX_NUM_BBS_PER_IMAGE" "current_filename sk = f" "warnings sk = warnings s1"
    by auto
  have full: "MAX_NUM_BBS_PER_IMAGE \<le> r_i sk" using sk(6) by simp
  let ?s2 = "add_warnings (length ?more) sk"
  have m: "loop ?body ?more sk = Inr ?s2"
    by (rule loop_full [OF ml sk(7) full])
  have split: "pre @ keep @ extra = pre @ ?first @ ?more"
    by simp
  have run: "loop ?body (pre @ keep @ extra) ?st0 = Inr ?s2"
    unfolding split using h sk(1) m by (simp add: loop_append)
  have rows: "\<forall>j < MAX_NUM_BBS_PER_IMAGE. blob_row (snd (last (r_images ?s2))) j
      = stored_row stof (keep ! j)"
    using sk(5) by simp
  have w: "warnings ?s2 = warnings s1 + (length keep - MAX_NUM_BBS_PER_IMAGE) + length extra"
    using sk(8) by simp
  have kp: "kept (length (r_images s1)) (last (r_images ?s2)) ?s2"
  proof -
    have "r_images sk \<noteq> []" using sk(2) by auto
    from last_conv_nth [OF this] sk(2,6) show ?thesis by (simp add: kept_def)
  qed
  have final: "length (r_images s1) < length (r_images r) \<and>
      r_images r ! length (r_images s1) = last (r_images ?s2)"
    if "loadBBTXTFile exists stof fresh (Some (pre @ keep @ extra @ post)) = Inr r" for r
  proof -
    from that have "loop ?body ((pre @ keep @ extra) @ post) ?st0 = Inr r"
      by (simp add: loadBBTXTFile_def)
    then have "loop ?body post ?s2 = Inr r"
      unfolding loop_append [of ?body "pre @ keep @ extra" post] run by simp
    from loop_kept [OF this kp] show ?thesis by (simp add: kept_def)
  qed
  from run sk(2,3,4,6,7) rows w final
  show "\<exists>s2. loop ?body (pre @ keep @ extra) ?st0 = Inr s2 \<and>
                 length (r_images s2) = length (r_images s1) + 1 \<and>
                 fst (last (r_images s2)) = f \<and>
                 length (snd (last (r_images s2))) = MAX_NUM_BBS_PER_IMAGE * 5 \<and>
                 (\<forall>j < MAX_NUM_BBS_PER_IMAGE.
                    blob_row (snd (last (r_images s2))) j = stored_row stof (keep ! j)) \<and>
                 r_i s2 = MAX_NUM_BBS_PER_IMAGE \<and> current_filename s2 = f \<and>
                 warnings s2
                   = warnings s1 + (length keep - MAX_NUM_BBS_PER_IMAGE) + length extra \<and>
                 (\<forall>r. loadBBTXTFile exists stof fresh (Some (pre @ keep @ extra @ post)) = Inr r
                    \<longrightarrow> length (r_images s1) < length (r_images r) \<and>
                        r_images r ! length (r_images s1) = last (r_images s2))"
    by (intro exI [of _ ?s2]) (simp add: blob_count_def)
qed

theorem extra_boxes_dropped_witness:
  "set full_entry = {''a 1 1.0 1 1 2 2''} \<and>
   length (boost_split ''a 1 1.0 1 1 2 2'') = 7 \<and> boost_split ''a 1 1.0 1 1 2 2'' ! 0 = ''a'' \<and>
   parsed decimal_stof ''a 1 1.0 1 1 2 2'' \<and>
   MAX_NUM_BBS_PER_IMAGE \<le> length full_entry \<and>
   set extra_lines = {''a 9 1.0 9 9 9 9''} \<and>
   length (boost_split ''a 9 1.0 9 9 9 9'') = 7 \<and> boost_split ''a 9 1.0 9 9 9 9'' ! 0 = ''a'' \<and>
   length zero_blob = blob_count \<and>
   \<not> isl (loadBBTXTFile (\<lambda>name. True) decimal_stof zero_blob
            (Some ([] @ full_entry @ next_entry))) \<and>
   \<not> isl (loadBBTXTFile (\<lambda>name. True) decimal_stof zero_blob
            (Some ([] @ full_entry @ extra_lines @ next_entry))) \<and>
   r_images (projr (loadBBTXTFile (\<lambda>name. True) decimal_stof zero_blob
            (Some ([] @ full_entry @ extra_lines @ next_entry))))
     = r_images (projr (loadBBTXTFile (\<lambda>name. True) decimal_stof zero_blob
            (Some ([] @ full_entry @ next_entry)))) \<and>
   warnings (projr (loadBBTXTFile (\<lambda>name. True) decimal_stof zero_blob
            (Some ([] @ full_entry @ extra_lines @ next_entry))))
     = warnings (projr (loadBBTXTFile (\<lambda>name. True) decimal_stof zero_blob
            (Some ([] @ full_entry @ next_entry)))) + 1 \<and>
   \<not> isl (loop (load_line (\<lambda>name. True) decimal_stof zero_blob)
            ([] @ full_entry @ extra_lines)
            \<lparr>r_images = [], current_filename = [], r_i = 0, warnings = 0\<rparr>) \<and>
   length (r_images (projr (loop (load_line (\<lambda>name. True) decimal_stof zero_blob)
            ([] @ full_entry @ extra_lines)
            \<lparr>r_images = [], current_filename = [], r_i = 0, warnings = 0\<rparr>))) = 1 \<and>
   fst (last (r_images (projr (loop (load_line (\<lambda>name. True) decimal_stof zero_blob)
            ([] @ full_entry @ extra_lines)
            \<lparr>r_images = [], current_filename = [], r_i = 0, warnings = 0\<rparr>)))) = ''a'' \<and>
   length (snd (last (r_images (projr (loop (load_line (\<lambda>name. True) decimal_stof zero_blob)
            ([] @ full_entry @ extra_lines)
            \<lparr>r_images = [], current_filename = [], r_i = 0, warnings = 0\<rparr>))))) = 100 \<and>
   blob_row (snd (last (r_images (projr (loop (load_line (\<lambda>name. True) decimal_stof zero_blob)
            ([] @ full_entry @ extra_lines)
            \<lparr>r_images = [], current_filename = [], r_i = 0, warnings = 0\<rparr>))))) 0
     = [1, 1, 1, 2, 2] \<and>
   blob_row (snd (last (r_images (projr (loop (load_line (\<lambda>name. True) decimal_stof zero_blob)
            ([] @ full_entry @ extra_lines)
            \<lparr>r_images = [], current_filename = [], r_i = 0, warnings = 0\<rparr>))))) 19
     = [1, 1, 1, 2, 2] \<and>
   r_i (projr (loop (load_line (\<lambda>name. True) decimal_stof zero_blob)
            ([] @ full_entry @ extra_lines)
            \<lparr>r_images = [], current_filename = [], r_i = 0, warnings = 0\<rparr>)) = 20 \<and>
   warnings (projr (loop (load_line (\<lambda>name. True) decimal_stof zero_blob)
            ([] @ full_entry @ extra_lines)
            \<lparr>r_images = [], current_filename = [], r_i = 0, warnings = 0\<rparr>)) = 1 \<and>
   r_images (projr (loadBBTXTFile (\<lambda>name. True) decimal_stof zero_blob
            (Some ([] @ full_entry @ extra_lines @ next_entry)))) ! 0
     = last (r_images (projr (loop (load_line (\<lambda>name. True) decimal_stof zero_blob)
            ([] @ full_entry @ extra_lines)
            \<lparr>r_images = [], current_filename = [], r_i = 0, warnings = 0\<rparr>)))"
proof -
  let ?st0 = "\<lparr>r_images = [], current_filename = [], r_i = 0, warnings = 0\<rparr> :: reader"
  let ?body = "load_line (\<lambda>name. True) decimal_stof zero_blob"
  have sp: "length (boost_split ''a 1 1.0 1 1 2 2'') = 7" "boost_split ''a 1 1.0 1 1 2 2'' ! 0 = ''a''"
    "length (boost_split ''a 9 1.0 9 9 9 9'') = 7" "boost_split ''a 9 1.0 9 9 9 9'' ! 0 = ''a''"
    by simp_all
  have pa: "parsed decimal_stof ''a 1 1.0 1 1 2 2''"
    by (simp add: parsed_def decimal_stof_def digit_value_def)
  have sr: "stored_row decimal_stof ''a 1 1.0 1 1 2 2'' = [1, 1, 1, 2, 2]"
    by (simp add: stored_row_def decimal_stof_def digit_value_def)
  have k: "\<forall>l \<in> set full_entry. length (boost_split l) = 7 \<and> boost_split l ! 0 = ''a''"
    by (simp add: full_entry_def)
  have n: "MAX_NUM_BBS_PER_IMAGE \<le> length full_entry"
    by (simp add: full_entry_def MAX_NUM_BBS_PER_IMAGE_def)
  have e: "\<forall>l \<in> set extra_lines. length (boost_split l) = 7 \<and> boost_split l ! 0 = ''a''"
    by (simp add: extra_lines_def)
  have z: "length zero_blob = blob_count" by (simp add: zero_blob_def)
  have h: "length zero_blob = blob_count \<and> (\<lambda>name. True) ''a'' \<and>
      loop ?body [] ?st0 = Inr ?st0 \<and> current_filename ?st0 \<noteq> ''a'' \<and>
      (\<forall>l \<in> set (take MAX_NUM_BBS_PER_IMAGE full_entry). parsed decimal_stof l)"
    using z pa by (auto simp: full_entry_def dest: in_set_takeD)
  note t = extra_boxes_dropped [OF k n e, of "\<lambda>name. True" decimal_stof zero_blob "[]"
      next_entry ?st0]
  obtain r where r: "loadBBTXTFile (\<lambda>name. True) decimal_stof zero_blob
      (Some ([] @ full_entry @ next_entry)) = Inr r"
    using load_full_entry
    by (cases "loadBBTXTFile (\<lambda>name. True) decimal_stof zero_blob
      (Some ([] @ full_entry @ next_entry))") auto
  from t r have r2: "loadBBTXTFile (\<lambda>name. True) decimal_stof zero_blob
      (Some ([] @ full_entry @ extra_lines @ next_entry))
      = Inr (r\<lparr>warnings := warnings r + length extra_lines\<rparr>)"
    by simp
  from t h obtain s2 where
    s2: "loop ?body ([] @ full_entry @ extra_lines) ?st0 = Inr s2"
      "length (r_images s2) = length (r_images ?st0) + 1"
      "fst (last (r_images s2)) = ''a''"
      "length (snd (last (r_images s2))) = MAX_NUM_BBS_PER_IMAGE * 5"
      "\<forall>j < MAX_NUM_BBS_PER_IMAGE.
         blob_row (snd (last (r_images s2))) j = stored_row decimal_stof (full_entry ! j)"
      "r_i s2 = MAX_NUM_BBS_PER_IMAGE"
      "warnings s2 = warnings ?st0 + (length full_entry - MAX_NUM_BBS_PER_IMAGE)
         + length extra_lines"
      "\<forall>r. loadBBTXTFile (\<lambda>name. True) decimal_stof zero_blob
              (Some ([] @ full_entry @ extra_lines @ next_entry)) = Inr r
          \<longrightarrow> length (r_images ?st0) < length (r_images r) \<and>
              r_images r ! length (r_images ?st0) = last (r_images s2)"
    by blast
  have rows: "blob_row (snd (last (r_images s2))) 0 = [1, 1, 1, 2, 2]"
      "blob_row (snd (last (r_images s2))) 19 = [1, 1, 1, 2, 2]"
    using s2(5) [rule_format, of 0] s2(5) [rule_format, of 19] sr
    by (simp_all add: MAX_NUM_BBS_PER_IMAGE_def full_entry_def)
  have fin: "r_images (r\<lparr>warnings := warnings r + length extra_lines\<rparr>) ! 0
      = last (r_images s2)"
    using s2(8) [rule_format, OF r2] by simp
  have sets: "set full_entry = {''a 1 1.0 1 1 2 2''}" "set extra_lines = {''a 9 1.0 9 9 9 9''}"
    by (simp_all add: full_entry_def extra_lines_def)
  have w: "warnings s2 = 1" "r_i s2 = 20" "length (snd (last (r_images s2))) = 100"
      "length (r_images s2) = 1"
    using s2(2,4,6,7)
    by (simp_all add: full_entry_def extra_lines_def MAX_NUM_BBS_PER_IMAGE_def)
  show ?thesis
    unfolding r r2 s2(1)
    using sets sp pa n z rows w s2(3) fin
    by (simp add: extra_lines_def)
qed

text \<open>
  C10. The third field of a line is not used: two files whose lines differ only in the third
  field give the same result. A line whose box is stored (no warning) writes the row
  \<open>[label, xmin, ymin, xmax, ymax]\<close> from the fields 2, 4, 5, 6 and 7 of the line.
\<close>

theorem confidence_not_stored:
  "(list_all2 (\<lambda>l l'. \<exists>c. boost_split l' = (boost_split l)[2 := c]) ls ls' \<longrightarrow>
      loadBBTXTFile exists stof fresh (Some ls') = loadBBTXTFile exists stof fresh (Some ls)) \<and>
   (length fresh = blob_count \<and> (\<forall>e \<in> set (r_images st). length (snd e) = blob_count) \<and>
    load_line exists stof fresh line st = Inr st' \<and> warnings st' = warnings st \<longrightarrow>
      r_images st' \<noteq> [] \<and> 0 < r_i st' \<and>
      map (\<lambda>j. snd (last (r_images st')) ! (offset (r_i st' - 1) + j)) [0..<5]
        = map (\<lambda>s. the (stof s))
            [boost_split line ! 1, boost_split line ! 3, boost_split line ! 4,
             boost_split line ! 5, boost_split line ! 6])"
  using loop_confidence [of ls ls' exists stof fresh]
    load_line_row [of fresh st exists stof line st']
  by (simp add: loadBBTXTFile_def)

theorem confidence_not_stored_witness:
  "list_all2 (\<lambda>l l'. \<exists>c. boost_split l' = (boost_split l)[2 := c]) one_line_file other_confidence \<and>
   loadBBTXTFile (\<lambda>name. True) decimal_stof zero_blob (Some other_confidence)
     = loadBBTXTFile (\<lambda>name. True) decimal_stof zero_blob (Some one_line_file) \<and>
   length zero_blob = blob_count \<and>
   load_line (\<lambda>name. True) decimal_stof zero_blob (one_line_file ! 0)
     \<lparr>r_images = [], current_filename = [], r_i = 0, warnings = 0\<rparr> = Inr one_line_result \<and>
   warnings one_line_result = 0 \<and>
   map (\<lambda>j. snd (last (r_images one_line_result)) ! (offset (r_i one_line_result - 1) + j)) [0..<5]
     = [2, 10, 10, 50, 50]"
proof -
  have "boost_split (other_confidence ! 0) = (boost_split (one_line_file ! 0))[2 := ''77'']"
    by (simp add: other_confidence_def one_line_file_def)
  then have a: "list_all2 (\<lambda>l l'. \<exists>c. boost_split l' = (boost_split l)[2 := c])
      one_line_file other_confidence"
    by (auto simp: other_confidence_def one_line_file_def)
  have z: "length zero_blob = blob_count" by (simp add: zero_blob_def)
  have w: "warnings one_line_result = 0" by (simp add: one_line_result_def)
  note t = confidence_not_stored [of one_line_file other_confidence "\<lambda>name. True" decimal_stof
      zero_blob "\<lparr>r_images = [], current_filename = [], r_i = 0, warnings = 0\<rparr>"
      "one_line_file ! 0" one_line_result]
  from t a have b: "loadBBTXTFile (\<lambda>name. True) decimal_stof zero_blob (Some other_confidence)
     = loadBBTXTFile (\<lambda>name. True) decimal_stof zero_blob (Some one_line_file)"
    by blast
  from t z w load_line_one_line
  have "map (\<lambda>j. snd (last (r_images one_line_result)) ! (offset (r_i one_line_result - 1) + j))
          [0..<5]
        = map (\<lambda>s. the (decimal_stof s))
            [boost_split (one_line_file ! 0) ! 1, boost_split (one_line_file ! 0) ! 3,
             boost_split (one_line_file ! 0) ! 4, boost_split (one_line_file ! 0) ! 5,
             boost_split (one_line_file ! 0) ! 6]"
    by simp
  also have "\<dots> = [2, 10, 10, 50, 50]"
    by (simp add: one_line_file_def decimal_stof_def digit_value_def)
  finally show ?thesis using a b z w load_line_one_line by blast
qed

end
